theory Spec2Isabelle
  imports Main "HOL-Library.Char_ord"
begin

section \<open>The lexer (lexer.hpp, lexer.cpp)\<close>

text \<open>
  The repository holds two revisions of \<^verbatim>\<open>lexer.cpp\<close>.  The later one keeps the
  bodies of the earlier \<^verbatim>\<open>error_end\<close> and \<^verbatim>\<open>skip_whitespace_and_comments\<close> as
  commented-out history and replaces them; it is the revision embedded here.

  A pointer pair \<^verbatim>\<open>(first, last)\<close> into the source buffer is modelled by the bytes
  of the half-open range: a \<open>string\<close>.  \<^verbatim>\<open>it != last\<close> is then
  "the range is not empty", \<^verbatim>\<open>*it\<close> is its head, \<^verbatim>\<open>++it\<close> drops the head, and
  \<^verbatim>\<open>it + 1 < last\<close> says that the range holds at least two bytes.  A function
  that returns a pointer returns here its distance from \<^verbatim>\<open>first\<close>.  The pointers
  stored in a token are offsets from the start of the buffer.
\<close>

datatype TokenType =
    TT_Error | TT_Num | TT_Id | TT_Int | TT_Struct | TT_Nil | TT_Break | TT_Continue
  | TT_Return | TT_If | TT_Else | TT_While | TT_New | TT_Let | TT_Extern | TT_Fn
  | TT_And | TT_Or | TT_Not | TT_Colon | TT_Semicolon | TT_Comma | TT_Arrow
  | TT_Ampersand | TT_Plus | TT_Dash | TT_Star | TT_Slash | TT_Equal | TT_NotEq
  | TT_Lt | TT_Lte | TT_Gt | TT_Gte | TT_Dot | TT_Gets | TT_OpenParen | TT_CloseParen
  | TT_OpenBracket | TT_CloseBracket | TT_OpenBrace | TT_CloseBrace | TT_QuestionMark

record Token =
  token_type :: TokenType
  tok_first :: nat
  tok_last :: nat

subsection \<open>The character classes of \<^verbatim>\<open><cctype>\<close> in the C locale\<close>

definition isalpha :: "char \<Rightarrow> bool" where
  "isalpha c = ((CHR ''A'' \<le> c \<and> c \<le> CHR ''Z'') \<or> (CHR ''a'' \<le> c \<and> c \<le> CHR ''z''))"

definition isdigit :: "char \<Rightarrow> bool" where
  "isdigit c = (CHR ''0'' \<le> c \<and> c \<le> CHR ''9'')"

definition isalnum :: "char \<Rightarrow> bool" where
  "isalnum c = (isalpha c \<or> isdigit c)"

definition isspace :: "char \<Rightarrow> bool" where
  "isspace c = (c = CHR '' '' \<or> c = CHR 0x09 \<or> c = CHR 0x0A \<or> c = CHR 0x0B
                \<or> c = CHR 0x0C \<or> c = CHR 0x0D)"

subsection \<open>Helpers of the lexer\<close>

text \<open>\<^verbatim>\<open>substr_eq(first, last, pattern)\<close>: the pattern is a NUL-terminated literal, given
  here without its terminator, so \<^verbatim>\<open>'\0' == *pattern_it\<close> is "the pattern is used up".\<close>

fun substr_eq :: "string \<Rightarrow> string \<Rightarrow> bool" where
  "substr_eq [] pattern = (pattern = [])"
| "substr_eq (c # cs) [] = False"
| "substr_eq (c # cs) (p # ps) = (if c \<noteq> p then False else substr_eq cs ps)"

fun starts_two_char_token :: "string \<Rightarrow> bool" where
  "starts_two_char_token (p0 # p1 # rest) =
     ((p0 = CHR ''!'' \<and> p1 = CHR ''='') \<or>
      (p0 = CHR ''<'' \<and> p1 = CHR ''='') \<or>
      (p0 = CHR ''>'' \<and> p1 = CHR ''='') \<or>
      (p0 = CHR ''-'' \<and> p1 = CHR ''>'') \<or>
      (p0 = CHR ''='' \<and> p1 = CHR ''='') \<or>
      (p0 = CHR ''/'' \<and> (p1 = CHR ''/'' \<or> p1 = CHR ''*'')))"
| "starts_two_char_token _ = False"

definition starts_one_char_token :: "char \<Rightarrow> bool" where
  "starts_one_char_token c =
     (c = CHR '':'' \<or> c = CHR '';'' \<or> c = CHR '','' \<or> c = CHR ''&'' \<or> c = CHR ''+''
      \<or> c = CHR ''-'' \<or> c = CHR ''*'' \<or> c = CHR ''/'' \<or> c = CHR ''<'' \<or> c = CHR ''>''
      \<or> c = CHR ''.'' \<or> c = CHR ''='' \<or> c = CHR ''('' \<or> c = CHR '')'' \<or> c = CHR ''[''
      \<or> c = CHR '']'' \<or> c = CHR ''{'' \<or> c = CHR ''}'' \<or> c = CHR ''?'')"

fun starts_token :: "string \<Rightarrow> bool" where
  "starts_token [] = False"
| "starts_token (c # cs) =
     (if isalpha c then True
      else if isdigit c then True
      else if starts_two_char_token (c # cs) then True
      else if starts_one_char_token c then True
      else False)"

text \<open>The \<^verbatim>\<open>while (it < last)\<close> loop of \<^verbatim>\<open>error_end\<close>, and the function itself.\<close>

fun error_scan :: "string \<Rightarrow> nat" where
  "error_scan [] = 0"
| "error_scan (c # cs) = (if starts_token (c # cs) then 0 else Suc (error_scan cs))"

fun error_end :: "string \<Rightarrow> nat" where
  "error_end [] = 0"
| "error_end (c # cs) = Suc (error_scan cs)"

fun identifier_scan :: "string \<Rightarrow> nat" where
  "identifier_scan [] = 0"
| "identifier_scan (c # cs) =
     (if \<not> (isalnum c \<or> CHR ''_'' = c) then 0 else Suc (identifier_scan cs))"

definition identifier_end :: "string \<Rightarrow> nat" where
  "identifier_end xs =
     (if xs = [] \<or> \<not> isalpha (hd xs) then 0 else identifier_scan xs)"

fun numeric_scan :: "string \<Rightarrow> nat" where
  "numeric_scan [] = 0"
| "numeric_scan (c # cs) = (if \<not> isdigit c then 0 else Suc (numeric_scan cs))"

definition numeric_end :: "string \<Rightarrow> nat" where
  "numeric_end xs =
     (if xs = [] \<or> \<not> isdigit (hd xs) then 0 else numeric_scan xs)"

subsection \<open>\<^verbatim>\<open>munch_token\<close>\<close>

text \<open>The chain of keyword tests on the identifier-shaped lexeme, in the source's order.\<close>

definition keyword_or_id :: "string \<Rightarrow> TokenType" where
  "keyword_or_id lexeme =
     (if substr_eq lexeme ''int'' then TT_Int
      else if substr_eq lexeme ''struct'' then TT_Struct
      else if substr_eq lexeme ''nil'' then TT_Nil
      else if substr_eq lexeme ''break'' then TT_Break
      else if substr_eq lexeme ''continue'' then TT_Continue
      else if substr_eq lexeme ''return'' then TT_Return
      else if substr_eq lexeme ''if'' then TT_If
      else if substr_eq lexeme ''else'' then TT_Else
      else if substr_eq lexeme ''while'' then TT_While
      else if substr_eq lexeme ''new'' then TT_New
      else if substr_eq lexeme ''let'' then TT_Let
      else if substr_eq lexeme ''extern'' then TT_Extern
      else if substr_eq lexeme ''fn'' then TT_Fn
      else if substr_eq lexeme ''and'' then TT_And
      else if substr_eq lexeme ''or'' then TT_Or
      else if substr_eq lexeme ''not'' then TT_Not
      else TT_Id)"

text \<open>The block guarded by \<^verbatim>\<open>last - first >= 2\<close>.\<close>

definition two_char_operator :: "string \<Rightarrow> TokenType option" where
  "two_char_operator xs =
     (if 2 \<le> length xs then
        (if substr_eq (take 2 xs) ''!='' then Some TT_NotEq
         else if substr_eq (take 2 xs) ''<='' then Some TT_Lte
         else if substr_eq (take 2 xs) ''>='' then Some TT_Gte
         else if substr_eq (take 2 xs) ''->'' then Some TT_Arrow
         else if substr_eq (take 2 xs) ''=='' then Some TT_Equal
         else None)
      else None)"

text \<open>The \<^verbatim>\<open>switch (*first)\<close>.\<close>

definition one_char_operator :: "char \<Rightarrow> TokenType option" where
  "one_char_operator c =
     (if c = CHR '':'' then Some TT_Colon
      else if c = CHR '';'' then Some TT_Semicolon
      else if c = CHR '','' then Some TT_Comma
      else if c = CHR ''&'' then Some TT_Ampersand
      else if c = CHR ''+'' then Some TT_Plus
      else if c = CHR ''-'' then Some TT_Dash
      else if c = CHR ''*'' then Some TT_Star
      else if c = CHR ''/'' then Some TT_Slash
      else if c = CHR ''<'' then Some TT_Lt
      else if c = CHR ''>'' then Some TT_Gt
      else if c = CHR ''.'' then Some TT_Dot
      else if c = CHR ''='' then Some TT_Gets
      else if c = CHR ''('' then Some TT_OpenParen
      else if c = CHR '')'' then Some TT_CloseParen
      else if c = CHR ''['' then Some TT_OpenBracket
      else if c = CHR '']'' then Some TT_CloseBracket
      else if c = CHR ''{'' then Some TT_OpenBrace
      else if c = CHR ''}'' then Some TT_CloseBrace
      else if c = CHR ''?'' then Some TT_QuestionMark
      else None)"

text \<open>\<open>munch_range xs\<close> is the kind and the length of the token that \<^verbatim>\<open>munch_token\<close>
  finds at the start of the range \<open>xs\<close>.\<close>

definition munch_range :: "string \<Rightarrow> TokenType \<times> nat" where
  "munch_range xs =
     (if xs = [] then (TT_Error, 0)
      else if isalpha (hd xs) then
        (let id_end = identifier_end xs in (keyword_or_id (take id_end xs), id_end))
      else if isdigit (hd xs) then (TT_Num, numeric_end xs)
      else (case two_char_operator xs of
              Some ty \<Rightarrow> (ty, 2)
            | None \<Rightarrow>
               (case one_char_operator (hd xs) of
                  Some ty \<Rightarrow> (ty, 1)
                | None \<Rightarrow> (TT_Error, error_end xs))))"

text \<open>\<^verbatim>\<open>munch_token(first, last)\<close> on the buffer \<open>s\<close>, with \<^verbatim>\<open>last\<close> the end of the buffer.\<close>

definition munch_token :: "string \<Rightarrow> nat \<Rightarrow> Token" where
  "munch_token s first =
     (case munch_range (drop first s) of
        (ty, n) \<Rightarrow> \<lparr>token_type = ty, tok_first = first, tok_last = first + n\<rparr>)"

subsection \<open>\<^verbatim>\<open>skip_whitespace_and_comments\<close>\<close>

text \<open>The three inner loops: the whitespace run, the body of a line comment up to the
  newline or the end, and the search for the end of a block comment (which returns the
  distance walked and the flag \<^verbatim>\<open>closed\<close>).\<close>

fun ws_end :: "string \<Rightarrow> nat" where
  "ws_end [] = 0"
| "ws_end (c # cs) = (if isspace c then Suc (ws_end cs) else 0)"

fun line_end :: "string \<Rightarrow> nat" where
  "line_end [] = 0"
| "line_end (c # cs) = (if c \<noteq> CHR 0x0A then Suc (line_end cs) else 0)"

fun block_scan :: "string \<Rightarrow> nat \<times> bool" where
  "block_scan (c0 # c1 # cs) =
     (if c0 = CHR ''*'' \<and> c1 = CHR ''/'' then (2, True)
      else (case block_scan (c1 # cs) of (n, closed) \<Rightarrow> (Suc n, closed)))"
| "block_scan _ = (0, False)"

lemma ws_end_le: "ws_end xs \<le> length xs"
  by (induction xs) auto

lemma line_end_le: "line_end xs \<le> length xs"
  by (induction xs) auto

lemma block_scan_le: "fst (block_scan xs) \<le> length xs"
  by (induction xs rule: block_scan.induct) (auto split: prod.splits)

lemma drop_Cons2_length: "drop n xs = a # b # rest \<Longrightarrow> length rest + 2 + n = length xs"
proof -
  assume h: "drop n xs = a # b # rest"
  have "length (drop n xs) = length xs - n" by simp
  with h have "length rest + 2 = length xs - n" by simp
  then show ?thesis by arith
qed

text \<open>The \<^verbatim>\<open>for (;;)\<close> loop.  \<open>p\<close> is the offset of \<^verbatim>\<open>it\<close> in the buffer at the start of
  an iteration and \<open>xs\<close> the bytes from there to \<^verbatim>\<open>last\<close>.\<close>

function skip_loop :: "nat \<Rightarrow> string \<Rightarrow> nat \<times> Token option" where
  "skip_loop p xs =
     (let n = ws_end xs; it = p + n; lastp = p + length xs in
      case drop n xs of
        c0 # c1 # rest \<Rightarrow>
          if c0 = CHR ''/'' \<and> c1 = CHR ''/'' then
            (let m = line_end rest; zs = drop m rest in
             if zs = [] then
               (lastp, Some \<lparr>token_type = TT_Error, tok_first = it, tok_last = lastp\<rparr>)
             else if hd zs = CHR 0x0A then skip_loop (it + 2 + m + 1) (tl zs)
             else skip_loop (it + 2 + m) zs)
          else if c0 = CHR ''/'' \<and> c1 = CHR ''*'' then
            (case block_scan rest of
               (m, closed) \<Rightarrow>
                 if \<not> closed then
                   (lastp, Some \<lparr>token_type = TT_Error, tok_first = it, tok_last = lastp\<rparr>)
                 else skip_loop (it + 2 + m) (drop m rest))
          else (it, None)
      | _ \<Rightarrow> (it, None))"
  by pat_completeness auto
termination
  by (relation "measure (\<lambda>(p, xs). length xs)") (auto dest!: drop_Cons2_length)

declare skip_loop.simps [simp del]

definition skip_whitespace_and_comments :: "string \<Rightarrow> nat \<Rightarrow> nat \<times> Token option" where
  "skip_whitespace_and_comments s first = skip_loop first (drop first s)"

subsection \<open>\<^verbatim>\<open>lex\<close>\<close>

text \<open>The \<^verbatim>\<open>while (curr != last)\<close> loop, with \<open>cur\<close> for \<^verbatim>\<open>curr\<close>;  it may in principle run forever (if a token were
  empty, or ended beyond \<^verbatim>\<open>last\<close>); not returning is the value \<open>None\<close>.\<close>

partial_function (option) lex_loop :: "string \<Rightarrow> nat \<Rightarrow> Token list \<Rightarrow> Token list option" where
  "lex_loop s cur tokens =
     (if cur \<noteq> length s then
        (case skip_whitespace_and_comments s cur of
           (next_char, Some err_tok) \<Rightarrow> Some (tokens @ [err_tok])
         | (next_char, None) \<Rightarrow>
             if next_char = length s then Some tokens
             else (let tok = munch_token s next_char
                   in lex_loop s (tok_last tok) (tokens @ [tok])))
      else Some tokens)"

declare lex_loop.simps [code]

definition lex :: "string \<Rightarrow> Token list option" where
  "lex s = lex_loop s 0 []"

text \<open>\<open>skip_reaches s a b\<close>: the skipper, with \<^verbatim>\<open>it\<close> at offset \<open>a\<close> at the start of an
  iteration of its loop, gets to offset \<open>b\<close> by stepping over whitespace bytes, line
  comments that end in a newline and block comments that are closed.\<close>

inductive skip_reaches :: "string \<Rightarrow> nat \<Rightarrow> nat \<Rightarrow> bool" for s :: string where
  skip_here: "skip_reaches s a a"
| skip_space: "\<lbrakk>a < length s; isspace (s ! a); skip_reaches s (Suc a) b\<rbrakk> \<Longrightarrow> skip_reaches s a b"
| skip_line: "\<lbrakk>drop a s = CHR ''/'' # CHR ''/'' # rest; line_end rest < length rest;
               skip_reaches s (a + 2 + line_end rest + 1) b\<rbrakk> \<Longrightarrow> skip_reaches s a b"
| skip_block: "\<lbrakk>drop a s = CHR ''/'' # CHR ''*'' # rest; block_scan rest = (m, True);
                skip_reaches s (a + 2 + m) b\<rbrakk> \<Longrightarrow> skip_reaches s a b"

text \<open>\<open>lex_reaches s cur tokens\<close>: the loop of \<^verbatim>\<open>lex\<close> on the buffer \<open>s\<close> gets to the start of
  an iteration with the cursor at offset \<open>cur\<close> and the tokens \<open>tokens\<close> collected.\<close>

inductive lex_reaches :: "string \<Rightarrow> nat \<Rightarrow> Token list \<Rightarrow> bool" for s :: string where
  lex_start: "lex_reaches s 0 []"
| lex_token: "\<lbrakk>lex_reaches s cur tokens; cur \<noteq> length s;
               skip_whitespace_and_comments s cur = (next_char, None); next_char \<noteq> length s\<rbrakk>
              \<Longrightarrow> lex_reaches s (tok_last (munch_token s next_char))
                    (tokens @ [munch_token s next_char])"

subsection \<open>The extent of an Error lexeme in the words of the specification\<close>

text \<open>
  The specification lets an Error lexeme end before the next byte that is a letter, a
  digit, one of the operator lead bytes or the start of a comment opener.  The lead bytes
  are the first bytes of the two-character operators \<^verbatim>\<open>!=\<close>, \<^verbatim>\<open><=\<close>, \<^verbatim>\<open>>=\<close>, \<^verbatim>\<open>->\<close>, \<^verbatim>\<open>==\<close> and the
  bytes of the one-character table.  \<open>spec_error_end\<close> follows these words, to be compared
  with \<open>error_end\<close>, which follows the code.
\<close>

definition operator_lead_byte :: "char \<Rightarrow> bool" where
  "operator_lead_byte c =
     (c = CHR ''!'' \<or> c = CHR ''<'' \<or> c = CHR ''>'' \<or> c = CHR ''-'' \<or> c = CHR ''=''
      \<or> one_char_operator c \<noteq> None)"

fun spec_token_start :: "string \<Rightarrow> bool" where
  "spec_token_start [] = False"
| "spec_token_start (c # cs) =
     (isalpha c \<or> isdigit c \<or> operator_lead_byte c
      \<or> take 2 (c # cs) = ''//'' \<or> take 2 (c # cs) = ''/*'')"

fun spec_error_scan :: "string \<Rightarrow> nat" where
  "spec_error_scan [] = 0"
| "spec_error_scan (c # cs) = (if spec_token_start (c # cs) then 0 else Suc (spec_error_scan cs))"

fun spec_error_end :: "string \<Rightarrow> nat" where
  "spec_error_end [] = 0"
| "spec_error_end (c # cs) = Suc (spec_error_scan cs)"

subsection \<open>The earlier revision of \<^verbatim>\<open>lexer.cpp\<close>\<close>

text \<open>
  The functions of the earlier revision that differ from the later one, for comparison:
  the two-character tests of \<^verbatim>\<open>munch_token\<close> use \<^verbatim>\<open>strcmp\<close>, \<^verbatim>\<open>error_end\<close> stops at a space, a
  letter, \<^verbatim>\<open>=\<close> or \<^verbatim>\<open>+\<close>, and the skipper reports no error for a line comment that the end
  of the buffer closes.  Their names carry the suffix \<open>_v1\<close>.

  \<^verbatim>\<open>strcmp(first, pattern) == 0\<close> compares the NUL-terminated string that starts at \<^verbatim>\<open>first\<close>,
  not the range up to \<^verbatim>\<open>last\<close>: the buffer is the \<^verbatim>\<open>c_str()\<close> of a \<^verbatim>\<open>std::string\<close>, so that
  string runs to the first NUL byte of the range or, without one, to its end.
\<close>

definition strcmp_eq :: "string \<Rightarrow> string \<Rightarrow> bool" where
  "strcmp_eq xs pattern = (takeWhile (\<lambda>c. c \<noteq> CHR 0x00) xs = pattern)"

definition two_char_operator_v1 :: "string \<Rightarrow> (TokenType \<times> nat) option" where
  "two_char_operator_v1 xs =
     (if 2 \<le> length xs then
        (if strcmp_eq xs ''!='' then Some (TT_NotEq, 2)
         else if strcmp_eq xs ''<='' then Some (TT_Lte, 2)
         else if strcmp_eq xs ''>='' then Some (TT_Gte, 2)
         else if strcmp_eq xs ''->'' then Some (TT_Arrow, 2)
         else if strcmp_eq xs ''=='' then Some (TT_Equal, 2)
         else if strcmp_eq xs ''/*'' then Some (TT_Error, length xs)
         else None)
      else None)"

fun error_scan_v1 :: "string \<Rightarrow> nat" where
  "error_scan_v1 [] = 0"
| "error_scan_v1 (c # cs) =
     (if CHR '' '' = c \<or> isalpha c \<or> CHR ''='' = c \<or> CHR ''+'' = c then 0
      else Suc (error_scan_v1 cs))"

fun error_end_v1 :: "string \<Rightarrow> nat" where
  "error_end_v1 [] = 0"
| "error_end_v1 (c # cs) = Suc (error_scan_v1 cs)"

definition munch_range_v1 :: "string \<Rightarrow> TokenType \<times> nat" where
  "munch_range_v1 xs =
     (if xs = [] then (TT_Error, 0)
      else if isalpha (hd xs) then
        (let id_end = identifier_end xs in (keyword_or_id (take id_end xs), id_end))
      else if isdigit (hd xs) then (TT_Num, numeric_end xs)
      else (case two_char_operator_v1 xs of
              Some r \<Rightarrow> r
            | None \<Rightarrow>
               (case one_char_operator (hd xs) of
                  Some ty \<Rightarrow> (ty, 1)
                | None \<Rightarrow> (TT_Error, error_end_v1 xs))))"

definition munch_token_v1 :: "string \<Rightarrow> nat \<Rightarrow> Token" where
  "munch_token_v1 s first =
     (case munch_range_v1 (drop first s) of
        (ty, n) \<Rightarrow> \<lparr>token_type = ty, tok_first = first, tok_last = first + n\<rparr>)"

function skip_loop_v1 :: "nat \<Rightarrow> string \<Rightarrow> nat \<times> Token option" where
  "skip_loop_v1 p xs =
     (let n = ws_end xs; it = p + n; lastp = p + length xs in
      case drop n xs of
        c0 # c1 # rest \<Rightarrow>
          if c0 = CHR ''/'' \<and> c1 = CHR ''/'' then
            (let m = line_end rest in skip_loop_v1 (it + 2 + m) (drop m rest))
          else if c0 = CHR ''/'' \<and> c1 = CHR ''*'' then
            (case block_scan rest of
               (m, closed) \<Rightarrow>
                 if closed then skip_loop_v1 (it + 2 + m) (drop m rest)
                 else (lastp, Some \<lparr>token_type = TT_Error, tok_first = it, tok_last = lastp\<rparr>))
          else (it, None)
      | _ \<Rightarrow> (it, None))"
  by pat_completeness auto
termination
  by (relation "measure (\<lambda>(p, xs). length xs)") (auto dest!: drop_Cons2_length)

declare skip_loop_v1.simps [simp del]

partial_function (option) lex_loop_v1 :: "string \<Rightarrow> nat \<Rightarrow> Token list \<Rightarrow> Token list option" where
  "lex_loop_v1 s cur tokens =
     (if cur \<noteq> length s then
        (case skip_loop_v1 cur (drop cur s) of
           (next_char, Some err_tok) \<Rightarrow> Some (tokens @ [err_tok])
         | (next_char, None) \<Rightarrow>
             if next_char = length s then Some tokens
             else (let tok = munch_token_v1 s next_char
                   in lex_loop_v1 s (tok_last tok) (tokens @ [tok])))
      else Some tokens)"

declare lex_loop_v1.simps [code]

definition lex_v1 :: "string \<Rightarrow> Token list option" where
  "lex_v1 s = lex_loop_v1 s 0 []"

section \<open>The token printer (lex_main.cpp) and the token reader (parse_main.cpp)\<close>

definition token_type_name :: "TokenType \<Rightarrow> string" where
  "token_type_name ty = (case ty of
       TT_Error \<Rightarrow> ''Error'' | TT_Num \<Rightarrow> ''Num'' | TT_Id \<Rightarrow> ''Id''
     | TT_Int \<Rightarrow> ''Int'' | TT_Struct \<Rightarrow> ''Struct'' | TT_Nil \<Rightarrow> ''Nil''
     | TT_Break \<Rightarrow> ''Break'' | TT_Continue \<Rightarrow> ''Continue'' | TT_Return \<Rightarrow> ''Return''
     | TT_If \<Rightarrow> ''If'' | TT_Else \<Rightarrow> ''Else'' | TT_While \<Rightarrow> ''While'' | TT_New \<Rightarrow> ''New''
     | TT_Let \<Rightarrow> ''Let'' | TT_Extern \<Rightarrow> ''Extern'' | TT_Fn \<Rightarrow> ''Fn'' | TT_And \<Rightarrow> ''And''
     | TT_Or \<Rightarrow> ''Or'' | TT_Not \<Rightarrow> ''Not'' | TT_Colon \<Rightarrow> ''Colon''
     | TT_Semicolon \<Rightarrow> ''Semicolon'' | TT_Comma \<Rightarrow> ''Comma'' | TT_Arrow \<Rightarrow> ''Arrow''
     | TT_Ampersand \<Rightarrow> ''Ampersand'' | TT_Plus \<Rightarrow> ''Plus'' | TT_Dash \<Rightarrow> ''Dash''
     | TT_Star \<Rightarrow> ''Star'' | TT_Slash \<Rightarrow> ''Slash'' | TT_Equal \<Rightarrow> ''Equal''
     | TT_NotEq \<Rightarrow> ''NotEq'' | TT_Lt \<Rightarrow> ''Lt'' | TT_Lte \<Rightarrow> ''Lte'' | TT_Gt \<Rightarrow> ''Gt''
     | TT_Gte \<Rightarrow> ''Gte'' | TT_Dot \<Rightarrow> ''Dot'' | TT_Gets \<Rightarrow> ''Gets''
     | TT_OpenParen \<Rightarrow> ''OpenParen'' | TT_CloseParen \<Rightarrow> ''CloseParen''
     | TT_OpenBracket \<Rightarrow> ''OpenBracket'' | TT_CloseBracket \<Rightarrow> ''CloseBracket''
     | TT_OpenBrace \<Rightarrow> ''OpenBrace'' | TT_CloseBrace \<Rightarrow> ''CloseBrace''
     | TT_QuestionMark \<Rightarrow> ''QuestionMark'')"

text \<open>\<^verbatim>\<open>token_type_to_string\<close>; the lexeme is read from the buffer \<open>s\<close>.\<close>

definition token_type_to_string :: "string \<Rightarrow> Token \<Rightarrow> string" where
  "token_type_to_string s token =
     (let lexeme = take (tok_last token - tok_first token) (drop (tok_first token) s) in
      if token_type token = TT_Error then
        (if lexeme \<noteq> [] \<and> last lexeme = CHR 0x0A then ''Error('' @ lexeme @ [CHR 0x0A] @ '')''
         else ''Error('' @ lexeme @ '')'')
      else if token_type token = TT_Num then ''Num('' @ lexeme @ '')''
      else if token_type token = TT_Id then ''Id('' @ lexeme @ '')''
      else token_type_name (token_type token))"

text \<open>The printing loop of \<^verbatim>\<open>main\<close>: the tokens separated by single spaces (the final
  \<^verbatim>\<open>std::endl\<close> is left out).\<close>

fun print_tokens :: "string \<Rightarrow> Token list \<Rightarrow> string" where
  "print_tokens s [] = []"
| "print_tokens s [t] = token_type_to_string s t"
| "print_tokens s (t # ts) = token_type_to_string s t @ '' '' @ print_tokens s ts"

text \<open>The token of the parser (parser.hpp): \<^verbatim>\<open>type\<close>, \<^verbatim>\<open>value\<close>, \<^verbatim>\<open>index\<close>.\<close>

record PToken =
  ttype :: string
  tvalue :: string
  tindex :: nat

text \<open>\<^verbatim>\<open>split\<close>: \<open>split_parts\<close> is the loop of \<^verbatim>\<open>std::getline\<close> calls, \<open>part\<close> the bytes that
  the current call has extracted so far.  A call that meets the end of the input before
  extracting anything fails and ends the loop.\<close>

fun split_parts :: "string \<Rightarrow> char \<Rightarrow> string \<Rightarrow> string list" where
  "split_parts [] delimiter part = (if part = [] then [] else [part])"
| "split_parts (c # cs) delimiter part =
     (if c = delimiter then part # split_parts cs delimiter []
      else split_parts cs delimiter (part @ [c]))"

definition split :: "string \<Rightarrow> char \<Rightarrow> string list" where
  "split s delimiter = split_parts s delimiter []"

text \<open>\<^verbatim>\<open>str_tok.find('(')\<close>: the offset of the first parenthesis, if there is one.\<close>

definition find_char :: "string \<Rightarrow> char \<Rightarrow> nat option" where
  "find_char str c = (if c \<in> set str then Some (length (takeWhile (\<lambda>x. x \<noteq> c) str)) else None)"

text \<open>\<^verbatim>\<open>substr(pos, count)\<close> for \<open>pos \<le> length str\<close>, which holds at both calls.  The count
  \<^verbatim>\<open>str_tok.length() - open_paren - 2\<close> of \<^verbatim>\<open>tokenize_input\<close> is a \<^verbatim>\<open>size_t\<close>; it wraps around
  only when the parenthesis is the last byte of the part, and then \<open>pos\<close> is the length
  of the part and the result is empty for every count, as it is for the count \<open>0\<close> that
  the subtraction on \<open>nat\<close> gives.\<close>

definition substr :: "string \<Rightarrow> nat \<Rightarrow> nat \<Rightarrow> string" where
  "substr str pos count = take count (drop pos str)"

text \<open>The body of the loop of \<^verbatim>\<open>tokenize_input\<close> for a non-empty part, and the loop
  itself, with \<open>i\<close> the loop counter.\<close>

definition make_token :: "string \<Rightarrow> nat \<Rightarrow> PToken" where
  "make_token str_tok i =
     (case find_char str_tok (CHR ''('') of
        Some open_paren \<Rightarrow>
          \<lparr>ttype = substr str_tok 0 open_paren,
           tvalue = substr str_tok (open_paren + 1) (length str_tok - open_paren - 2),
           tindex = i\<rparr>
      | None \<Rightarrow> \<lparr>ttype = str_tok, tvalue = [], tindex = i\<rparr>)"

fun tokenize_parts :: "string list \<Rightarrow> nat \<Rightarrow> PToken list" where
  "tokenize_parts [] i = []"
| "tokenize_parts (str_tok # rest) i =
     (if str_tok = [] then tokenize_parts rest (Suc i)
      else make_token str_tok i # tokenize_parts rest (Suc i))"

definition tokenize_input :: "string \<Rightarrow> PToken list" where
  "tokenize_input line = tokenize_parts (split line (CHR '' '')) 0"

section \<open>The abstract syntax tree (ast.hpp)\<close>

datatype UnaryOp = Neg | NotOp

datatype BinaryOp = Add | Sub | Mul | Div | And | Or | Eq | NotEq | Lt | Lte | Gt | Gte

datatype Type =
    IntType | StructType string | FnType "Type list" Type | PtrType Type | ArrayType Type
  | NilType

datatype Place = IdPlace string | Deref Exp | ArrayAccess Exp Exp | FieldAccess Exp string
  and Exp = Val Place | Num int | NilExp | Select Exp Exp Exp | UnOp UnaryOp Exp
    | BinOp BinaryOp Exp Exp | NewSingle Type | NewArray Type Exp | CallExp FunCall
  and FunCall = FunCall Exp "Exp list"

datatype Stmt =
    Assign Place Exp | CallStmt FunCall | IfStmt Exp "Stmt list" "Stmt list"
  | While Exp "Stmt list" | Break | Continue | Return Exp

section \<open>The parser (parser.hpp, parser.cpp)\<close>

text \<open>
  What a parsing method can throw: the \<^verbatim>\<open>std::runtime_error\<close> of \<^verbatim>\<open>Parser::error\<close> with its
  message; the \<^verbatim>\<open>std::invalid_argument\<close> of \<^verbatim>\<open>std::stoll\<close>, which \<^verbatim>\<open>parse_exp7\<close> does not
  catch; the \<^verbatim>\<open>std::out_of_range\<close> of \<^verbatim>\<open>vector::at\<close> in \<^verbatim>\<open>previous\<close>.  \<open>OutOfFuel\<close> is not an
  exception of the program: the recursive descent is modelled with a bound on the depth
  of calls, and \<open>OutOfFuel\<close> says that the bound was too small.
\<close>

datatype exn = ParseError string | StdInvalidArgument | StdOutOfRange | OutOfFuel

type_synonym 'a parser = "PToken list \<Rightarrow> nat \<Rightarrow> exn + ('a \<times> nat)"

text \<open>Sequencing: an exception of the first computation is the exception of the whole.\<close>

definition bind_res :: "exn + 'a \<Rightarrow> ('a \<Rightarrow> exn + 'b) \<Rightarrow> exn + 'b" where
  "bind_res m f = (case m of Inl e \<Rightarrow> Inl e | Inr x \<Rightarrow> f x)"

definition error :: "string \<Rightarrow> exn + 'a" where
  "error message = Inl (ParseError (''parse error: '' @ message))"

text \<open>\<^verbatim>\<open>std::to_string\<close> on a \<^verbatim>\<open>size_t\<close>.\<close>

definition digit_char :: "nat \<Rightarrow> char" where
  "digit_char d = char_of (48 + d)"

function to_string :: "nat \<Rightarrow> string" where
  "to_string n = (if n < 10 then [digit_char n] else to_string (n div 10) @ [digit_char (n mod 10)])"
  by pat_completeness auto
termination
  by (relation "measure id") auto

declare to_string.simps [simp del]

text \<open>
  \<^verbatim>\<open>std::stoll\<close> with base 10, as \<^verbatim>\<open>strtoll\<close> defines it: leading whitespace is skipped, one
  sign is accepted, the longest run of digits is converted and what follows is ignored;
  no digit is \<^verbatim>\<open>std::invalid_argument\<close>, a value outside of the 64-bit signed range is
  \<^verbatim>\<open>std::out_of_range\<close>.
\<close>

datatype stoll_error = invalid_argument | out_of_range

definition digit_value :: "char \<Rightarrow> int" where
  "digit_value c = int (of_char c) - 48"

definition digits_value :: "string \<Rightarrow> int" where
  "digits_value ds = foldl (\<lambda>acc c. acc * 10 + digit_value c) 0 ds"

definition stoll :: "string \<Rightarrow> stoll_error + int" where
  "stoll str =
     (let s1 = dropWhile isspace str;
          negative = (s1 \<noteq> [] \<and> hd s1 = CHR ''-'');
          s2 = (if s1 \<noteq> [] \<and> (hd s1 = CHR ''-'' \<or> hd s1 = CHR ''+'') then tl s1 else s1);
          ds = takeWhile isdigit s2
      in if ds = [] then Inl invalid_argument
         else (let v = (if negative then - digits_value ds else digits_value ds)
               in if v < - (2 ^ 63) \<or> 2 ^ 63 - 1 < v then Inl out_of_range else Inr v))"

subsection \<open>Helper methods\<close>

definition is_at_end :: "PToken list \<Rightarrow> nat \<Rightarrow> bool" where
  "is_at_end ts pos = (length ts \<le> pos)"

definition peek :: "PToken list \<Rightarrow> nat \<Rightarrow> exn + PToken" where
  "peek ts pos =
     (if is_at_end ts pos then error ''unexpected end of token stream'' else Inr (ts ! pos))"

text \<open>\<^verbatim>\<open>m_tokens.at(m_current_pos - 1)\<close>: at position 0 the index wraps around and \<^verbatim>\<open>at\<close> throws.\<close>

definition previous :: "PToken list \<Rightarrow> nat \<Rightarrow> exn + PToken" where
  "previous ts pos =
     (if pos = 0 \<or> length ts < pos then Inl StdOutOfRange else Inr (ts ! (pos - 1)))"

definition advance :: "PToken list \<Rightarrow> nat \<Rightarrow> exn + (PToken \<times> nat)" where
  "advance ts pos =
     (let pos' = (if \<not> is_at_end ts pos then Suc pos else pos)
      in bind_res (previous ts pos') (\<lambda>tok. Inr (tok, pos')))"

definition check :: "PToken list \<Rightarrow> nat \<Rightarrow> string \<Rightarrow> bool" where
  "check ts pos ty = (if is_at_end ts pos then False else ttype (ts ! pos) = ty)"

definition check_any :: "PToken list \<Rightarrow> nat \<Rightarrow> string list \<Rightarrow> bool" where
  "check_any ts pos types = (if is_at_end ts pos then False else ttype (ts ! pos) \<in> set types)"

text \<open>The message \<^verbatim>\<open>"unexpected token at token " + std::to_string(peek().index)\<close>, which is
  built, and may throw, before the method that receives it is called.\<close>

definition unexpected_token :: "PToken list \<Rightarrow> nat \<Rightarrow> exn + string" where
  "unexpected_token ts pos =
     bind_res (peek ts pos) (\<lambda>tok. Inr (''unexpected token at token '' @ to_string (tindex tok)))"

definition consume :: "PToken list \<Rightarrow> nat \<Rightarrow> string \<Rightarrow> exn + string \<Rightarrow> exn + (PToken \<times> nat)" where
  "consume ts pos expected_type error_message =
     bind_res error_message (\<lambda>msg.
       if is_at_end ts pos then error ''unexpected end of token stream''
       else if ttype (ts ! pos) \<noteq> expected_type then error msg
       else advance ts pos)"

subsection \<open>Types\<close>

text \<open>
  The parsing methods call one another.  Each is written first as a body that takes the
  methods it calls as arguments of the same names; a \<^verbatim>\<open>while\<close> or \<^verbatim>\<open>do\<close> loop is a method
  of its own (\<open>_loop\<close>, \<open>parse_type_list\<close>, \<open>parse_args\<close>) that calls itself for the next
  iteration.  A record then holds the methods for a depth of calls of at most \<open>n\<close>: at
  depth \<open>Suc n\<close> each body is given the methods of depth \<open>n\<close>, and at depth \<open>0\<close> every
  method gives up.  The lemmas \<open>parse_type_Suc\<close>, \<open>parse_exp_Suc\<close>, \<open>parse_stmt_Suc\<close>
  and so on, further down, state the resulting equations, which read as the methods do.
\<close>

definition parse_type_body :: "(Type parser) \<Rightarrow> (Type parser) \<Rightarrow> Type parser" where
  "parse_type_body parse_type parse_funtype ts pos =
     (if check ts pos ''Int'' then
        bind_res (advance ts pos) (\<lambda>(tok, p1). Inr (IntType, p1))
      else if check ts pos ''Id'' then
        bind_res (advance ts pos) (\<lambda>(id_token, p1). Inr (StructType (tvalue id_token), p1))
      else if check ts pos ''Ampersand'' then
        bind_res (advance ts pos) (\<lambda>(tok, p1).
        bind_res (parse_type ts p1) (\<lambda>(inner_type, p2). Inr (PtrType inner_type, p2)))
      else if check ts pos ''OpenBracket'' then
        bind_res (advance ts pos) (\<lambda>(tok, p1).
        bind_res (parse_type ts p1) (\<lambda>(inner_type, p2).
        bind_res (consume ts p2 ''CloseBracket'' (unexpected_token ts p2)) (\<lambda>(tok, p3).
        Inr (ArrayType inner_type, p3))))
      else parse_funtype ts pos)"

definition parse_funtype_body :: "(Type parser) \<Rightarrow> (PToken list \<Rightarrow> nat \<Rightarrow> Type list \<Rightarrow> exn + (Type list \<times> nat)) \<Rightarrow> Type parser" where
  "parse_funtype_body parse_type parse_type_list ts pos =
     bind_res (consume ts pos ''OpenParen'' (unexpected_token ts pos)) (\<lambda>(tok, p1).
     bind_res (if \<not> check ts p1 ''CloseParen'' then parse_type_list ts p1 []
               else Inr ([], p1)) (\<lambda>(param_types, p2).
     bind_res (consume ts p2 ''CloseParen'' (unexpected_token ts p2)) (\<lambda>(tok, p3).
     bind_res (consume ts p3 ''Arrow'' (unexpected_token ts p3)) (\<lambda>(tok, p4).
     bind_res (parse_type ts p4) (\<lambda>(return_type, p5).
     Inr (FnType param_types return_type, p5))))))"

definition parse_type_list_body :: "(Type parser) \<Rightarrow> (PToken list \<Rightarrow> nat \<Rightarrow> Type list \<Rightarrow> exn + (Type list \<times> nat)) \<Rightarrow> PToken list \<Rightarrow> nat \<Rightarrow> Type list \<Rightarrow> exn + (Type list \<times> nat)" where
  "parse_type_list_body parse_type parse_type_list ts pos param_types =
     bind_res (parse_type ts pos) (\<lambda>(ty, p1).
       if check ts p1 ''Comma'' then
         bind_res (advance ts p1) (\<lambda>(tok, p2). parse_type_list ts p2 (param_types @ [ty]))
       else Inr (param_types @ [ty], p1))"

record type_parsers =
  t_type :: "Type parser"
  t_funtype :: "Type parser"
  t_type_list :: "PToken list \<Rightarrow> nat \<Rightarrow> Type list \<Rightarrow> exn + (Type list \<times> nat)"

primrec type_parsers_at :: "nat \<Rightarrow> type_parsers" where
  "type_parsers_at 0 =
     \<lparr>t_type = (\<lambda>a0 a1. Inl OutOfFuel),
      t_funtype = (\<lambda>a0 a1. Inl OutOfFuel),
      t_type_list = (\<lambda>a0 a1 a2. Inl OutOfFuel)\<rparr>"
| "type_parsers_at (Suc n) =
     (let ps = type_parsers_at n in
     \<lparr>t_type = parse_type_body (t_type ps) (t_funtype ps),
      t_funtype = parse_funtype_body (t_type ps) (t_type_list ps),
      t_type_list = parse_type_list_body (t_type ps) (t_type_list ps)\<rparr>)"

definition parse_type :: "nat \<Rightarrow> Type parser" where
  "parse_type n = t_type (type_parsers_at n)"

definition parse_funtype :: "nat \<Rightarrow> Type parser" where
  "parse_funtype n = t_funtype (type_parsers_at n)"

definition parse_type_list :: "nat \<Rightarrow> PToken list \<Rightarrow> nat \<Rightarrow> Type list \<Rightarrow> exn + (Type list \<times> nat)" where
  "parse_type_list n = t_type_list (type_parsers_at n)"

subsection \<open>Expressions\<close>

text \<open>The operator of a token, as the chains of comparisons on \<^verbatim>\<open>op_token.type\<close> give it.\<close>

definition exp2_op :: "PToken \<Rightarrow> exn + BinaryOp" where
  "exp2_op op_token =
     (if ttype op_token = ''Equal'' then Inr Eq
      else if ttype op_token = ''NotEq'' then Inr NotEq
      else if ttype op_token = ''Lt'' then Inr Lt
      else if ttype op_token = ''Lte'' then Inr Lte
      else if ttype op_token = ''Gt'' then Inr Gt
      else if ttype op_token = ''Gte'' then Inr Gte
      else error (''unexpected token at token '' @ to_string (tindex op_token)))"

text \<open>The \<^verbatim>\<open>Num\<close> case of \<^verbatim>\<open>parse_exp7\<close> after \<^verbatim>\<open>advance\<close>: the \<^verbatim>\<open>try\<close> block and its handler.\<close>

definition num_literal :: "PToken \<Rightarrow> exn + Exp" where
  "num_literal num_token =
     (case stoll (tvalue num_token) of
        Inr v \<Rightarrow> Inr (Num v)
      | Inl out_of_range \<Rightarrow>
          error (''invalid i64 number '' @ tvalue num_token @ '' at token ''
                 @ to_string (tindex num_token))
      | Inl invalid_argument \<Rightarrow> Inl StdInvalidArgument)"

definition parse_exp_body :: "(Exp \<Rightarrow> Exp parser) \<Rightarrow> (Exp parser) \<Rightarrow> Exp parser" where
  "parse_exp_body parse_exp_loop parse_exp1 ts pos =
     bind_res (parse_exp1 ts pos) (\<lambda>(left, p1). parse_exp_loop left ts p1)"

definition parse_exp_loop_body :: "(Exp parser) \<Rightarrow> (Exp \<Rightarrow> Exp parser) \<Rightarrow> (Exp parser) \<Rightarrow> Exp \<Rightarrow> Exp parser" where
  "parse_exp_loop_body parse_exp parse_exp_loop parse_exp1 left ts pos =
     (if check ts pos ''QuestionMark'' then
        bind_res (advance ts pos) (\<lambda>(tok, p1).
        bind_res (parse_exp ts p1) (\<lambda>(true_exp, p2).
        bind_res (consume ts p2 ''Colon'' (unexpected_token ts p2)) (\<lambda>(tok, p3).
        bind_res (parse_exp1 ts p3) (\<lambda>(false_exp, p4).
        parse_exp_loop (Select left true_exp false_exp) ts p4))))
      else Inr (left, pos))"

definition parse_exp1_body :: "(Exp parser) \<Rightarrow> (Exp parser) \<Rightarrow> Exp parser" where
  "parse_exp1_body parse_exp1 parse_exp2 ts pos =
     bind_res (parse_exp2 ts pos) (\<lambda>(left, p1).
       if check_any ts p1 [''And'', ''Or''] then
         bind_res (advance ts p1) (\<lambda>(op_token, p2).
         bind_res (parse_exp1 ts p2) (\<lambda>(right, p3).
         Inr (BinOp (if ttype op_token = ''And'' then And else Or) left right, p3)))
       else Inr (left, p1))"

definition parse_exp2_body :: "(Exp \<Rightarrow> Exp parser) \<Rightarrow> (Exp parser) \<Rightarrow> Exp parser" where
  "parse_exp2_body parse_exp2_loop parse_exp3 ts pos =
     bind_res (parse_exp3 ts pos) (\<lambda>(left, p1). parse_exp2_loop left ts p1)"

definition parse_exp2_loop_body :: "(Exp \<Rightarrow> Exp parser) \<Rightarrow> (Exp parser) \<Rightarrow> Exp \<Rightarrow> Exp parser" where
  "parse_exp2_loop_body parse_exp2_loop parse_exp3 left ts pos =
     (if check_any ts pos [''Equal'', ''NotEq'', ''Lt'', ''Lte'', ''Gt'', ''Gte''] then
        bind_res (advance ts pos) (\<lambda>(op_token, p1).
        bind_res (parse_exp3 ts p1) (\<lambda>(right, p2).
        bind_res (exp2_op op_token) (\<lambda>op.
        parse_exp2_loop (BinOp op left right) ts p2)))
      else Inr (left, pos))"

definition parse_exp3_body :: "(Exp \<Rightarrow> Exp parser) \<Rightarrow> (Exp parser) \<Rightarrow> Exp parser" where
  "parse_exp3_body parse_exp3_loop parse_exp4 ts pos =
     bind_res (parse_exp4 ts pos) (\<lambda>(left, p1). parse_exp3_loop left ts p1)"

definition parse_exp3_loop_body :: "(Exp \<Rightarrow> Exp parser) \<Rightarrow> (Exp parser) \<Rightarrow> Exp \<Rightarrow> Exp parser" where
  "parse_exp3_loop_body parse_exp3_loop parse_exp4 left ts pos =
     (if check_any ts pos [''Plus'', ''Dash''] then
        bind_res (advance ts pos) (\<lambda>(op_token, p1).
        bind_res (parse_exp4 ts p1) (\<lambda>(right, p2).
        parse_exp3_loop (BinOp (if ttype op_token = ''Plus'' then Add else Sub) left right)
          ts p2))
      else Inr (left, pos))"

definition parse_exp4_body :: "(Exp \<Rightarrow> Exp parser) \<Rightarrow> (Exp parser) \<Rightarrow> Exp parser" where
  "parse_exp4_body parse_exp4_loop parse_exp5 ts pos =
     bind_res (parse_exp5 ts pos) (\<lambda>(left, p1). parse_exp4_loop left ts p1)"

definition parse_exp4_loop_body :: "(Exp \<Rightarrow> Exp parser) \<Rightarrow> (Exp parser) \<Rightarrow> Exp \<Rightarrow> Exp parser" where
  "parse_exp4_loop_body parse_exp4_loop parse_exp5 left ts pos =
     (if check_any ts pos [''Star'', ''Slash''] then
        bind_res (advance ts pos) (\<lambda>(op_token, p1).
        bind_res (parse_exp5 ts p1) (\<lambda>(right, p2).
        parse_exp4_loop (BinOp (if ttype op_token = ''Star'' then Mul else Div) left right)
          ts p2))
      else Inr (left, pos))"

definition parse_exp5_body :: "(Exp parser) \<Rightarrow> (Exp parser) \<Rightarrow> Exp parser" where
  "parse_exp5_body parse_exp5 parse_exp6 ts pos =
     (if check_any ts pos [''Dash'', ''Not''] then
        bind_res (advance ts pos) (\<lambda>(op_token, p1).
        bind_res (parse_exp5 ts p1) (\<lambda>(exp, p2).
        Inr (UnOp (if ttype op_token = ''Dash'' then Neg else NotOp) exp, p2)))
      else parse_exp6 ts pos)"

definition parse_exp6_body :: "(Exp \<Rightarrow> Exp parser) \<Rightarrow> (Exp parser) \<Rightarrow> Exp parser" where
  "parse_exp6_body parse_exp6_loop parse_exp7 ts pos =
     bind_res (parse_exp7 ts pos) (\<lambda>(exp, p1). parse_exp6_loop exp ts p1)"

definition parse_exp6_loop_body :: "(Exp parser) \<Rightarrow> (Exp \<Rightarrow> Exp parser) \<Rightarrow> (PToken list \<Rightarrow> nat \<Rightarrow> Exp list \<Rightarrow> exn + (Exp list \<times> nat)) \<Rightarrow> Exp \<Rightarrow> Exp parser" where
  "parse_exp6_loop_body parse_exp parse_exp6_loop parse_args exp ts pos =
     (if check ts pos ''OpenBracket'' then
        bind_res (advance ts pos) (\<lambda>(tok, p1).
        bind_res (parse_exp ts p1) (\<lambda>(index, p2).
        bind_res (consume ts p2 ''CloseBracket'' (unexpected_token ts p2)) (\<lambda>(tok, p3).
        parse_exp6_loop (Val (ArrayAccess exp index)) ts p3)))
      else if check ts pos ''Dot'' then
        bind_res (advance ts pos) (\<lambda>(tok, p1).
          if check ts p1 ''Id'' then
            bind_res (advance ts p1) (\<lambda>(field_token, p2).
            parse_exp6_loop (Val (FieldAccess exp (tvalue field_token))) ts p2)
          else if check ts p1 ''Star'' then
            bind_res (advance ts p1) (\<lambda>(tok, p2).
            parse_exp6_loop (Val (Deref exp)) ts p2)
          else bind_res (unexpected_token ts p1) error)
      else if check ts pos ''OpenParen'' then
        bind_res (advance ts pos) (\<lambda>(tok, p1).
        bind_res (if \<not> check ts p1 ''CloseParen'' then parse_args ts p1 []
                  else Inr ([], p1)) (\<lambda>(args, p2).
        bind_res (consume ts p2 ''CloseParen'' (unexpected_token ts p2)) (\<lambda>(tok, p3).
        parse_exp6_loop (CallExp (FunCall exp args)) ts p3)))
      else Inr (exp, pos))"

definition parse_args_body :: "(Exp parser) \<Rightarrow> (PToken list \<Rightarrow> nat \<Rightarrow> Exp list \<Rightarrow> exn + (Exp list \<times> nat)) \<Rightarrow> PToken list \<Rightarrow> nat \<Rightarrow> Exp list \<Rightarrow> exn + (Exp list \<times> nat)" where
  "parse_args_body parse_exp parse_args ts pos args =
     bind_res (parse_exp ts pos) (\<lambda>(arg, p1).
       if check ts p1 ''Comma'' then
         bind_res (advance ts p1) (\<lambda>(tok, p2). parse_args ts p2 (args @ [arg]))
       else Inr (args @ [arg], p1))"

definition parse_exp7_body :: "nat \<Rightarrow> (Exp parser) \<Rightarrow> Exp parser" where
  "parse_exp7_body n parse_exp ts pos =
     (if check ts pos ''Id'' then
        bind_res (advance ts pos) (\<lambda>(id_token, p1). Inr (Val (IdPlace (tvalue id_token)), p1))
      else if check ts pos ''Num'' then
        bind_res (advance ts pos) (\<lambda>(num_token, p1).
        bind_res (num_literal num_token) (\<lambda>num. Inr (num, p1)))
      else if check ts pos ''Nil'' then
        bind_res (advance ts pos) (\<lambda>(tok, p1). Inr (NilExp, p1))
      else if check ts pos ''New'' then
        bind_res (advance ts pos) (\<lambda>(tok, p1).
        bind_res (parse_type n ts p1) (\<lambda>(ty, p2). Inr (NewSingle ty, p2)))
      else if check ts pos ''OpenBracket'' then
        bind_res (advance ts pos) (\<lambda>(tok, p1).
        bind_res (parse_type n ts p1) (\<lambda>(ty, p2).
        bind_res (consume ts p2 ''Semicolon'' (unexpected_token ts p2)) (\<lambda>(tok, p3).
        bind_res (parse_exp ts p3) (\<lambda>(size_exp, p4).
        bind_res (consume ts p4 ''CloseBracket'' (unexpected_token ts p4)) (\<lambda>(tok, p5).
        Inr (NewArray ty size_exp, p5))))))
      else if check ts pos ''OpenParen'' then
        bind_res (advance ts pos) (\<lambda>(tok, p1).
        bind_res (parse_exp ts p1) (\<lambda>(exp, p2).
        bind_res (consume ts p2 ''CloseParen'' (unexpected_token ts p2)) (\<lambda>(tok, p3).
        Inr (exp, p3))))
      else bind_res (unexpected_token ts pos) error)"

record exp_parsers =
  p_exp :: "Exp parser"
  p_exp_loop :: "Exp \<Rightarrow> Exp parser"
  p_exp1 :: "Exp parser"
  p_exp2 :: "Exp parser"
  p_exp2_loop :: "Exp \<Rightarrow> Exp parser"
  p_exp3 :: "Exp parser"
  p_exp3_loop :: "Exp \<Rightarrow> Exp parser"
  p_exp4 :: "Exp parser"
  p_exp4_loop :: "Exp \<Rightarrow> Exp parser"
  p_exp5 :: "Exp parser"
  p_exp6 :: "Exp parser"
  p_exp6_loop :: "Exp \<Rightarrow> Exp parser"
  p_args :: "PToken list \<Rightarrow> nat \<Rightarrow> Exp list \<Rightarrow> exn + (Exp list \<times> nat)"
  p_exp7 :: "Exp parser"

primrec exp_parsers_at :: "nat \<Rightarrow> exp_parsers" where
  "exp_parsers_at 0 =
     \<lparr>p_exp = (\<lambda>a0 a1. Inl OutOfFuel),
      p_exp_loop = (\<lambda>a0 a1 a2. Inl OutOfFuel),
      p_exp1 = (\<lambda>a0 a1. Inl OutOfFuel),
      p_exp2 = (\<lambda>a0 a1. Inl OutOfFuel),
      p_exp2_loop = (\<lambda>a0 a1 a2. Inl OutOfFuel),
      p_exp3 = (\<lambda>a0 a1. Inl OutOfFuel),
      p_exp3_loop = (\<lambda>a0 a1 a2. Inl OutOfFuel),
      p_exp4 = (\<lambda>a0 a1. Inl OutOfFuel),
      p_exp4_loop = (\<lambda>a0 a1 a2. Inl OutOfFuel),
      p_exp5 = (\<lambda>a0 a1. Inl OutOfFuel),
      p_exp6 = (\<lambda>a0 a1. Inl OutOfFuel),
      p_exp6_loop = (\<lambda>a0 a1 a2. Inl OutOfFuel),
      p_args = (\<lambda>a0 a1 a2. Inl OutOfFuel),
      p_exp7 = (\<lambda>a0 a1. Inl OutOfFuel)\<rparr>"
| "exp_parsers_at (Suc n) =
     (let ps = exp_parsers_at n in
     \<lparr>p_exp = parse_exp_body (p_exp_loop ps) (p_exp1 ps),
      p_exp_loop = parse_exp_loop_body (p_exp ps) (p_exp_loop ps) (p_exp1 ps),
      p_exp1 = parse_exp1_body (p_exp1 ps) (p_exp2 ps),
      p_exp2 = parse_exp2_body (p_exp2_loop ps) (p_exp3 ps),
      p_exp2_loop = parse_exp2_loop_body (p_exp2_loop ps) (p_exp3 ps),
      p_exp3 = parse_exp3_body (p_exp3_loop ps) (p_exp4 ps),
      p_exp3_loop = parse_exp3_loop_body (p_exp3_loop ps) (p_exp4 ps),
      p_exp4 = parse_exp4_body (p_exp4_loop ps) (p_exp5 ps),
      p_exp4_loop = parse_exp4_loop_body (p_exp4_loop ps) (p_exp5 ps),
      p_exp5 = parse_exp5_body (p_exp5 ps) (p_exp6 ps),
      p_exp6 = parse_exp6_body (p_exp6_loop ps) (p_exp7 ps),
      p_exp6_loop = parse_exp6_loop_body (p_exp ps) (p_exp6_loop ps) (p_args ps),
      p_args = parse_args_body (p_exp ps) (p_args ps),
      p_exp7 = parse_exp7_body n (p_exp ps)\<rparr>)"

definition parse_exp :: "nat \<Rightarrow> Exp parser" where
  "parse_exp n = p_exp (exp_parsers_at n)"

definition parse_exp_loop :: "nat \<Rightarrow> Exp \<Rightarrow> Exp parser" where
  "parse_exp_loop n = p_exp_loop (exp_parsers_at n)"

definition parse_exp1 :: "nat \<Rightarrow> Exp parser" where
  "parse_exp1 n = p_exp1 (exp_parsers_at n)"

definition parse_exp2 :: "nat \<Rightarrow> Exp parser" where
  "parse_exp2 n = p_exp2 (exp_parsers_at n)"

definition parse_exp2_loop :: "nat \<Rightarrow> Exp \<Rightarrow> Exp parser" where
  "parse_exp2_loop n = p_exp2_loop (exp_parsers_at n)"

definition parse_exp3 :: "nat \<Rightarrow> Exp parser" where
  "parse_exp3 n = p_exp3 (exp_parsers_at n)"

definition parse_exp3_loop :: "nat \<Rightarrow> Exp \<Rightarrow> Exp parser" where
  "parse_exp3_loop n = p_exp3_loop (exp_parsers_at n)"

definition parse_exp4 :: "nat \<Rightarrow> Exp parser" where
  "parse_exp4 n = p_exp4 (exp_parsers_at n)"

definition parse_exp4_loop :: "nat \<Rightarrow> Exp \<Rightarrow> Exp parser" where
  "parse_exp4_loop n = p_exp4_loop (exp_parsers_at n)"

definition parse_exp5 :: "nat \<Rightarrow> Exp parser" where
  "parse_exp5 n = p_exp5 (exp_parsers_at n)"

definition parse_exp6 :: "nat \<Rightarrow> Exp parser" where
  "parse_exp6 n = p_exp6 (exp_parsers_at n)"

definition parse_exp6_loop :: "nat \<Rightarrow> Exp \<Rightarrow> Exp parser" where
  "parse_exp6_loop n = p_exp6_loop (exp_parsers_at n)"

definition parse_args :: "nat \<Rightarrow> PToken list \<Rightarrow> nat \<Rightarrow> Exp list \<Rightarrow> exn + (Exp list \<times> nat)" where
  "parse_args n = p_args (exp_parsers_at n)"

definition parse_exp7 :: "nat \<Rightarrow> Exp parser" where
  "parse_exp7 n = p_exp7 (exp_parsers_at n)"

subsection \<open>Statements\<close>

definition parse_stmt_body :: "nat \<Rightarrow> (Stmt parser) \<Rightarrow> (Stmt parser) \<Rightarrow> (Stmt parser) \<Rightarrow> Stmt parser" where
  "parse_stmt_body n parse_if_stmt parse_while_stmt parse_return_stmt ts pos =
     (if check ts pos ''If'' then parse_if_stmt ts pos
      else if check ts pos ''While'' then parse_while_stmt ts pos
      else if check ts pos ''Return'' then parse_return_stmt ts pos
      else if check ts pos ''Break'' then
        bind_res (advance ts pos) (\<lambda>(tok, p1).
        bind_res (consume ts p1 ''Semicolon'' (unexpected_token ts p1)) (\<lambda>(tok, p2).
        Inr (Break, p2)))
      else if check ts pos ''Continue'' then
        bind_res (advance ts pos) (\<lambda>(tok, p1).
        bind_res (consume ts p1 ''Semicolon'' (unexpected_token ts p1)) (\<lambda>(tok, p2).
        Inr (Continue, p2)))
      else
        bind_res (peek ts pos) (\<lambda>start_token.
        bind_res (parse_exp n ts pos) (\<lambda>(left_exp, p1).
          if check ts p1 ''Gets'' then
            bind_res (advance ts p1) (\<lambda>(tok, p2).
            bind_res (parse_exp n ts p2) (\<lambda>(right_exp, p3).
            bind_res (consume ts p3 ''Semicolon'' (unexpected_token ts p3)) (\<lambda>(tok, p4).
              case left_exp of
                Val place \<Rightarrow> Inr (Assign place right_exp, p4)
              | _ \<Rightarrow> error (''left-hand side of assignment must be a place, starting at token ''
                             @ to_string (tindex start_token)))))
          else
            bind_res (consume ts p1 ''Semicolon'' (unexpected_token ts p1)) (\<lambda>(tok, p2).
              case left_exp of
                CallExp fc \<Rightarrow> Inr (CallStmt fc, p2)
              | _ \<Rightarrow> error (''standalone expressions must be function calls, starting at token ''
                             @ to_string (tindex start_token))))))"

definition parse_if_stmt_body :: "nat \<Rightarrow> ((Stmt list) parser) \<Rightarrow> Stmt parser" where
  "parse_if_stmt_body n parse_block ts pos =
     bind_res (consume ts pos ''If'' (unexpected_token ts pos)) (\<lambda>(tok, p1).
     bind_res (parse_exp n ts p1) (\<lambda>(guard, p2).
     bind_res (parse_block ts p2) (\<lambda>(tt, p3).
       if check ts p3 ''Else'' then
         bind_res (advance ts p3) (\<lambda>(tok, p4).
         bind_res (parse_block ts p4) (\<lambda>(ff, p5). Inr (IfStmt guard tt ff, p5)))
       else Inr (IfStmt guard tt [], p3))))"

definition parse_block_body :: "(PToken list \<Rightarrow> nat \<Rightarrow> Stmt list \<Rightarrow> exn + (Stmt list \<times> nat)) \<Rightarrow> (Stmt list) parser" where
  "parse_block_body parse_block_loop ts pos =
     bind_res (consume ts pos ''OpenBrace'' (unexpected_token ts pos)) (\<lambda>(tok, p1).
     bind_res (parse_block_loop ts p1 []) (\<lambda>(stmts, p2).
     bind_res (consume ts p2 ''CloseBrace'' (unexpected_token ts p2)) (\<lambda>(tok, p3).
     Inr (stmts, p3))))"

definition parse_block_loop_body :: "(Stmt parser) \<Rightarrow> (PToken list \<Rightarrow> nat \<Rightarrow> Stmt list \<Rightarrow> exn + (Stmt list \<times> nat)) \<Rightarrow> PToken list \<Rightarrow> nat \<Rightarrow> Stmt list \<Rightarrow> exn + (Stmt list \<times> nat)" where
  "parse_block_loop_body parse_stmt parse_block_loop ts pos stmts =
     (if \<not> check ts pos ''CloseBrace'' \<and> \<not> is_at_end ts pos then
        bind_res (parse_stmt ts pos) (\<lambda>(stmt, p1). parse_block_loop ts p1 (stmts @ [stmt]))
      else Inr (stmts, pos))"

definition parse_while_stmt_body :: "nat \<Rightarrow> ((Stmt list) parser) \<Rightarrow> Stmt parser" where
  "parse_while_stmt_body n parse_block ts pos =
     bind_res (consume ts pos ''While'' (unexpected_token ts pos)) (\<lambda>(tok, p1).
     bind_res (parse_exp n ts p1) (\<lambda>(guard, p2).
     bind_res (parse_block ts p2) (\<lambda>(body, p3). Inr (While guard body, p3))))"

definition parse_return_stmt_body :: "nat \<Rightarrow> Stmt parser" where
  "parse_return_stmt_body n ts pos =
     bind_res (consume ts pos ''Return'' (unexpected_token ts pos)) (\<lambda>(tok, p1).
     bind_res (parse_exp n ts p1) (\<lambda>(exp, p2).
     bind_res (consume ts p2 ''Semicolon'' (unexpected_token ts p2)) (\<lambda>(tok, p3).
     Inr (Return exp, p3))))"

record stmt_parsers =
  s_stmt :: "Stmt parser"
  s_if_stmt :: "Stmt parser"
  s_block :: "(Stmt list) parser"
  s_block_loop :: "PToken list \<Rightarrow> nat \<Rightarrow> Stmt list \<Rightarrow> exn + (Stmt list \<times> nat)"
  s_while_stmt :: "Stmt parser"
  s_return_stmt :: "Stmt parser"

primrec stmt_parsers_at :: "nat \<Rightarrow> stmt_parsers" where
  "stmt_parsers_at 0 =
     \<lparr>s_stmt = (\<lambda>a0 a1. Inl OutOfFuel),
      s_if_stmt = (\<lambda>a0 a1. Inl OutOfFuel),
      s_block = (\<lambda>a0 a1. Inl OutOfFuel),
      s_block_loop = (\<lambda>a0 a1 a2. Inl OutOfFuel),
      s_while_stmt = (\<lambda>a0 a1. Inl OutOfFuel),
      s_return_stmt = (\<lambda>a0 a1. Inl OutOfFuel)\<rparr>"
| "stmt_parsers_at (Suc n) =
     (let ps = stmt_parsers_at n in
     \<lparr>s_stmt = parse_stmt_body n (s_if_stmt ps) (s_while_stmt ps) (s_return_stmt ps),
      s_if_stmt = parse_if_stmt_body n (s_block ps),
      s_block = parse_block_body (s_block_loop ps),
      s_block_loop = parse_block_loop_body (s_stmt ps) (s_block_loop ps),
      s_while_stmt = parse_while_stmt_body n (s_block ps),
      s_return_stmt = parse_return_stmt_body n\<rparr>)"

definition parse_stmt :: "nat \<Rightarrow> Stmt parser" where
  "parse_stmt n = s_stmt (stmt_parsers_at n)"

definition parse_if_stmt :: "nat \<Rightarrow> Stmt parser" where
  "parse_if_stmt n = s_if_stmt (stmt_parsers_at n)"

definition parse_block :: "nat \<Rightarrow> (Stmt list) parser" where
  "parse_block n = s_block (stmt_parsers_at n)"

definition parse_block_loop :: "nat \<Rightarrow> PToken list \<Rightarrow> nat \<Rightarrow> Stmt list \<Rightarrow> exn + (Stmt list \<times> nat)" where
  "parse_block_loop n = s_block_loop (stmt_parsers_at n)"

definition parse_while_stmt :: "nat \<Rightarrow> Stmt parser" where
  "parse_while_stmt n = s_while_stmt (stmt_parsers_at n)"

definition parse_return_stmt :: "nat \<Rightarrow> Stmt parser" where
  "parse_return_stmt n = s_return_stmt (stmt_parsers_at n)"


text \<open>The last branch of \<^verbatim>\<open>parse_stmt\<close>, once the left expression has been parsed.\<close>

definition exp_stmt_tail :: "nat \<Rightarrow> PToken list \<Rightarrow> PToken \<Rightarrow> Exp \<Rightarrow> nat \<Rightarrow> exn + (Stmt \<times> nat)" where
  "exp_stmt_tail n ts start_token left_exp p1 =
     (if check ts p1 ''Gets'' then
        bind_res (advance ts p1) (\<lambda>(tok, p2).
        bind_res (parse_exp n ts p2) (\<lambda>(right_exp, p3).
        bind_res (consume ts p3 ''Semicolon'' (unexpected_token ts p3)) (\<lambda>(tok, p4).
          case left_exp of
            Val place \<Rightarrow> Inr (Assign place right_exp, p4)
          | _ \<Rightarrow> error (''left-hand side of assignment must be a place, starting at token ''
                         @ to_string (tindex start_token)))))
      else
        bind_res (consume ts p1 ''Semicolon'' (unexpected_token ts p1)) (\<lambda>(tok, p2).
          case left_exp of
            CallExp fc \<Rightarrow> Inr (CallStmt fc, p2)
          | _ \<Rightarrow> error (''standalone expressions must be function calls, starting at token ''
                         @ to_string (tindex start_token))))"

subsection \<open>Relations between results\<close>

text \<open>
  Two relations used to compare runs of the parser: \<open>le_res r r'\<close> says that \<open>r'\<close> is the
  result \<open>r\<close> unless \<open>r\<close> ran out of fuel; \<open>emb_res r r'\<close> says that a result of \<open>r\<close> is the
  result of \<open>r'\<close> one token further.
\<close>

definition le_res :: "exn + 'a \<Rightarrow> exn + 'a \<Rightarrow> bool" where
  "le_res r r' \<longleftrightarrow> r = Inl OutOfFuel \<or> r = r'"

definition emb_res :: "exn + ('a \<times> nat) \<Rightarrow> exn + ('a \<times> nat) \<Rightarrow> bool" where
  "emb_res r r' \<longleftrightarrow> (\<forall>x p. r = Inr (x, p) \<longrightarrow> r' = Inr (x, Suc p))"

section \<open>Properties of the lexer\<close>

lemma substr_eq_iff: "substr_eq xs pat \<longleftrightarrow> xs = pat"
  by (induction xs pat rule: substr_eq.induct) auto

lemma identifier_scan_le: "identifier_scan xs \<le> length xs"
  by (induction xs) auto

lemma numeric_scan_le: "numeric_scan xs \<le> length xs"
  by (induction xs) auto

lemma error_scan_le: "error_scan xs \<le> length xs"
  by (induction xs) auto

lemma two_char_operator_Some: "two_char_operator xs = Some ty \<Longrightarrow> 2 \<le> length xs"
  by (auto simp: two_char_operator_def split: if_splits)

lemma munch_range_progress:
  "xs \<noteq> [] \<Longrightarrow> 0 < snd (munch_range xs) \<and> snd (munch_range xs) \<le> length xs"
proof (cases xs)
  case Nil
  assume "xs \<noteq> []" with Nil show ?thesis by simp
next
  case (Cons c cs)
  have a: "isalpha c \<Longrightarrow> 0 < identifier_end (c # cs) \<and> identifier_end (c # cs) \<le> length (c # cs)"
    using identifier_scan_le [of cs] by (simp add: identifier_end_def isalnum_def)
  have d: "isdigit c \<Longrightarrow> 0 < numeric_end (c # cs) \<and> numeric_end (c # cs) \<le> length (c # cs)"
    using numeric_scan_le [of cs] by (simp add: numeric_end_def)
  have e: "0 < error_end (c # cs) \<and> error_end (c # cs) \<le> length (c # cs)"
    using error_scan_le [of cs] by simp
  show ?thesis
    using a d e two_char_operator_Some [of "c # cs"] Cons
    by (auto simp: munch_range_def Let_def split: option.splits)
qed

lemma munch_token_progress:
  assumes "first < length s"
  shows "first < tok_last (munch_token s first) \<and> tok_last (munch_token s first) \<le> length s"
proof -
  obtain ty n where mr: "munch_range (drop first s) = (ty, n)"
    by (cases "munch_range (drop first s)")
  from assms have ne: "drop first s \<noteq> []" by simp
  from munch_range_progress [OF ne] mr have "0 < n" "n \<le> length s - first" by simp_all
  with assms have "first < first + n" "first + n \<le> length s" by arith+
  then show ?thesis by (simp add: munch_token_def mr)
qed

lemma skip_loop_bounds:
  "skip_loop p xs = (n, e) \<Longrightarrow> p \<le> n \<and> n \<le> p + length xs \<and> (e \<noteq> None \<longrightarrow> n = p + length xs)"
proof (induction xs arbitrary: p n e rule: length_induct)
  case (1 xs)
  have rec: "\<And>q ys n e. skip_loop q ys = (n, e) \<Longrightarrow> length ys < length xs \<Longrightarrow>
      q \<le> n \<and> n \<le> q + length ys \<and> (e \<noteq> None \<longrightarrow> n = q + length ys)"
    using "1.IH" by blast
  have w: "ws_end xs \<le> length xs" by (rule ws_end_le)
  show ?case
  proof (cases "drop (ws_end xs) xs")
    case Nil
    with "1.prems" w show ?thesis by (simp add: skip_loop.simps [of p xs] Let_def)
  next
    case (Cons c0 ys)
    note outer = Cons
    show ?thesis
    proof (cases ys)
      case Nil
      with outer "1.prems" w show ?thesis by (simp add: skip_loop.simps [of p xs] Let_def)
    next
      case (Cons c1 rest)
      with outer have dr: "drop (ws_end xs) xs = c0 # c1 # rest" by simp
      then have len: "length rest + 2 + ws_end xs = length xs" by (rule drop_Cons2_length)
      have le1: "line_end rest \<le> length rest" by (rule line_end_le)
      have le2: "fst (block_scan rest) \<le> length rest" by (rule block_scan_le)
      show ?thesis
      proof (cases "c0 = CHR ''/'' \<and> c1 = CHR ''/''")
        case True
        show ?thesis
        proof (cases "drop (line_end rest) rest = []")
          case True
          with \<open>c0 = CHR ''/'' \<and> c1 = CHR ''/''\<close> "1.prems" dr len show ?thesis
            by (simp add: skip_loop.simps [of p xs] Let_def)
        next
          case False
          then have lt: "line_end rest < length rest" by simp
          show ?thesis
          proof (cases "hd (drop (line_end rest) rest) = CHR 0x0A")
            case True
            with False \<open>c0 = CHR ''/'' \<and> c1 = CHR ''/''\<close> "1.prems" dr
            have r: "skip_loop (p + ws_end xs + 2 + line_end rest + 1) (tl (drop (line_end rest) rest)) = (n, e)"
              by (simp add: skip_loop.simps [of p xs] Let_def)
            have l: "length (tl (drop (line_end rest) rest)) < length xs"
              using len lt by simp
            have "p + ws_end xs + 2 + line_end rest + 1 + length (tl (drop (line_end rest) rest))
                  = p + length xs"
              using len lt by simp
            with rec [OF r l] show ?thesis by simp
          next
            case nl: False
            with False \<open>c0 = CHR ''/'' \<and> c1 = CHR ''/''\<close> "1.prems" dr
            have r: "skip_loop (p + ws_end xs + 2 + line_end rest) (drop (line_end rest) rest) = (n, e)"
              by (simp add: skip_loop.simps [of p xs] Let_def)
            have l: "length (drop (line_end rest) rest) < length xs"
              using len lt by simp
            have "p + ws_end xs + 2 + line_end rest + length (drop (line_end rest) rest)
                  = p + length xs"
              using len lt by simp
            with rec [OF r l] show ?thesis by simp
          qed
        qed
      next
        case notline: False
        show ?thesis
        proof (cases "c0 = CHR ''/'' \<and> c1 = CHR ''*''")
          case True
          obtain m closed where bs: "block_scan rest = (m, closed)" by (cases "block_scan rest")
          with le2 have mle: "m \<le> length rest" by simp
          show ?thesis
          proof (cases closed)
            case True
            with bs notline \<open>c0 = CHR ''/'' \<and> c1 = CHR ''*''\<close> "1.prems" dr
            have r: "skip_loop (p + ws_end xs + 2 + m) (drop m rest) = (n, e)"
              by (simp add: skip_loop.simps [of p xs] Let_def)
            have l: "length (drop m rest) < length xs"
              using len mle by simp
            have "p + ws_end xs + 2 + m + length (drop m rest) = p + length xs"
              using len mle by simp
            with rec [OF r l] show ?thesis by simp
          next
            case False
            with bs notline \<open>c0 = CHR ''/'' \<and> c1 = CHR ''*''\<close> "1.prems" dr len show ?thesis
              by (simp add: skip_loop.simps [of p xs] Let_def)
          qed
        next
          case False
          with notline "1.prems" dr len show ?thesis
            by (auto simp: skip_loop.simps [of p xs] Let_def)
        qed
      qed
    qed
  qed
qed

lemma skip_bounds:
  assumes "cur \<le> length s" and "skip_whitespace_and_comments s cur = (n, e)"
  shows "cur \<le> n \<and> n \<le> length s \<and> (e \<noteq> None \<longrightarrow> n = length s)"
proof -
  from assms(2) have "skip_loop cur (drop cur s) = (n, e)"
    by (simp add: skip_whitespace_and_comments_def)
  from skip_loop_bounds [OF this]
  have b: "cur \<le> n \<and> n \<le> cur + length (drop cur s)
           \<and> (e \<noteq> None \<longrightarrow> n = cur + length (drop cur s))" .
  have eq: "cur + length (drop cur s) = length s" using assms(1) by simp
  from b [unfolded eq] show ?thesis .
qed

lemma lex_loop_total: "cur \<le> length s \<Longrightarrow> \<exists>ts. lex_loop s cur acc = Some ts"
proof (induction "length s - cur" arbitrary: cur acc rule: less_induct)
  case less
  show ?case
  proof (cases "cur = length s")
    case True
    then show ?thesis by (subst lex_loop.simps) simp
  next
    case False
    obtain n e where sk: "skip_whitespace_and_comments s cur = (n, e)"
      by (cases "skip_whitespace_and_comments s cur")
    from skip_bounds [OF less.prems sk] have b: "cur \<le> n" "n \<le> length s" by simp_all
    show ?thesis
    proof (cases e)
      case (Some tok)
      with sk False show ?thesis by (subst lex_loop.simps) simp
    next
      case None
      show ?thesis
      proof (cases "n = length s")
        case True
        with sk None False show ?thesis by (subst lex_loop.simps) simp
      next
        case nend: False
        with b have nlt: "n < length s" by simp
        from munch_token_progress [OF nlt]
        have p: "n < tok_last (munch_token s n)" "tok_last (munch_token s n) \<le> length s"
          by simp_all
        from p b have "length s - tok_last (munch_token s n) < length s - cur" by arith
        from less.hyps [OF this p(2)]
        obtain ts where "lex_loop s (tok_last (munch_token s n)) (acc @ [munch_token s n]) = Some ts"
          by blast
        with sk None False nend show ?thesis
          by (subst lex_loop.simps) (simp add: Let_def)
      qed
    qed
  qed
qed


lemma skip_loop_none:
  "\<not> isspace c \<Longrightarrow> c \<noteq> CHR ''/'' \<Longrightarrow> skip_loop p (c # cs) = (p, None)"
  by (subst skip_loop.simps) (simp split: list.splits)

lemma lex_loop_step:
  assumes "cur < length s"
      and "skip_whitespace_and_comments s cur = (n, None)"
      and "n \<noteq> length s"
  shows "lex_loop s cur tokens
         = lex_loop s (tok_last (munch_token s n)) (tokens @ [munch_token s n])"
  using assms by (subst lex_loop.simps) (simp add: Let_def)

text \<open>
  Claim C9.  \<^verbatim>\<open>lex\<close> returns on every buffer.  Every token that \<^verbatim>\<open>munch_token\<close> produces
  on a non-empty range starts at the cursor, ends strictly after it and within the buffer
  (each of its branches, the Error fallback included, consumes at least one byte); the
  skipper never moves the cursor backwards or past the end, and when it returns an error
  token its cursor is the end of the buffer, which ends the loop.
\<close>

theorem lex_terminates:
  "(\<exists>ts. lex s = Some ts) \<and>
   (\<forall>first. first < length s \<longrightarrow>
      tok_first (munch_token s first) = first \<and>
      first < tok_last (munch_token s first) \<and>
      tok_last (munch_token s first) \<le> length s) \<and>
   (\<forall>cur n e. cur \<le> length s \<and> skip_whitespace_and_comments s cur = (n, e) \<longrightarrow>
      cur \<le> n \<and> n \<le> length s \<and> (e \<noteq> None \<longrightarrow> n = length s))"
proof (intro conjI allI impI)
  show "\<exists>ts. lex s = Some ts"
    unfolding lex_def by (rule lex_loop_total) simp
next
  fix first assume "first < length s"
  then show "first < tok_last (munch_token s first)" "tok_last (munch_token s first) \<le> length s"
    using munch_token_progress by blast+
  show "tok_first (munch_token s first) = first"
    by (simp add: munch_token_def split: prod.splits)
next
  fix cur n e
  assume h: "cur \<le> length s \<and> skip_whitespace_and_comments s cur = (n, e)"
  then have "cur \<le> n \<and> n \<le> length s \<and> (e \<noteq> None \<longrightarrow> n = length s)"
    using skip_bounds by blast
  then show "cur \<le> n" "n \<le> length s" by simp_all
  assume "e \<noteq> None"
  with \<open>cur \<le> n \<and> n \<le> length s \<and> (e \<noteq> None \<longrightarrow> n = length s)\<close> show "n = length s" by simp
qed

theorem lex_terminates_witness:
  "(0::nat) < length ''ab 1'' \<and> (0::nat) \<le> length ''ab 1''
   \<and> skip_whitespace_and_comments ''ab 1'' 0 = (0, None)
   \<and> tok_first (munch_token ''ab 1'' 0) < tok_last (munch_token ''ab 1'' 0)
   \<and> tok_last (munch_token ''ab 1'' 0) \<le> length ''ab 1''
   \<and> (\<exists>ts. lex ''ab 1'' = Some ts)"
proof -
  have h1: "(0::nat) < length ''ab 1''" by simp
  have h2: "skip_whitespace_and_comments ''ab 1'' 0 = (0, None)"
    by code_simp
  note t = lex_terminates [of "''ab 1''"]
  from t have a: "\<exists>ts. lex ''ab 1'' = Some ts" by (rule conjunct1)
  from t have "\<forall>first. first < length ''ab 1'' \<longrightarrow>
      tok_first (munch_token ''ab 1'' first) = first \<and>
      first < tok_last (munch_token ''ab 1'' first) \<and>
      tok_last (munch_token ''ab 1'' first) \<le> length ''ab 1''"
    by (rule conjunct1 [OF conjunct2])
  from this [rule_format, OF h1]
  have b: "tok_first (munch_token ''ab 1'' 0) < tok_last (munch_token ''ab 1'' 0)"
          "tok_last (munch_token ''ab 1'' 0) \<le> length ''ab 1''"
    by simp_all
  from h1 h2 a b show ?thesis by simp
qed

text \<open>
  Claim C6.  \<^verbatim>\<open>munch_token\<close> tries the two-character operators \<^verbatim>\<open>!=\<close>, \<^verbatim>\<open><=\<close>, \<^verbatim>\<open>>=\<close>,
  \<^verbatim>\<open>->\<close>, \<^verbatim>\<open>==\<close> before the single-character table: wherever the next two bytes of the
  buffer form one of them, whatever bytes \<open>rest\<close> follow, the token is the two-character
  one, and the loop of \<^verbatim>\<open>lex\<close> with its cursor there appends exactly that token and goes on
  two bytes further.
\<close>

theorem munch_token_two_char_first:
  assumes "drop first s = c0 # c1 # rest"
  shows "(c0 = CHR ''!'' \<and> c1 = CHR ''='' \<longrightarrow>
            munch_token s first = \<lparr>token_type = TT_NotEq, tok_first = first, tok_last = first + 2\<rparr>) \<and>
         (c0 = CHR ''<'' \<and> c1 = CHR ''='' \<longrightarrow>
            munch_token s first = \<lparr>token_type = TT_Lte, tok_first = first, tok_last = first + 2\<rparr>) \<and>
         (c0 = CHR ''>'' \<and> c1 = CHR ''='' \<longrightarrow>
            munch_token s first = \<lparr>token_type = TT_Gte, tok_first = first, tok_last = first + 2\<rparr>) \<and>
         (c0 = CHR ''-'' \<and> c1 = CHR ''>'' \<longrightarrow>
            munch_token s first = \<lparr>token_type = TT_Arrow, tok_first = first, tok_last = first + 2\<rparr>) \<and>
         (c0 = CHR ''='' \<and> c1 = CHR ''='' \<longrightarrow>
            munch_token s first = \<lparr>token_type = TT_Equal, tok_first = first, tok_last = first + 2\<rparr>) \<and>
         ((c0, c1) \<in> {(CHR ''!'', CHR ''=''), (CHR ''<'', CHR ''=''), (CHR ''>'', CHR ''=''),
                      (CHR ''-'', CHR ''>''), (CHR ''='', CHR ''='')} \<longrightarrow>
            lex_loop s first tokens
            = lex_loop s (first + 2) (tokens @ [munch_token s first]))"
proof -
  let ?D = "{(CHR ''!'', CHR ''=''), (CHR ''<'', CHR ''=''), (CHR ''>'', CHR ''=''),
             (CHR ''-'', CHR ''>''), (CHR ''='', CHR ''='')}"
  have na: "(c0, c1) \<in> ?D \<Longrightarrow> \<not> isalpha c0 \<and> \<not> isdigit c0 \<and> \<not> isspace c0 \<and> c0 \<noteq> CHR ''/''"
    by (auto simp: isalpha_def isdigit_def isspace_def)
  have mt: "munch_token s first = \<lparr>token_type = ty, tok_first = first, tok_last = first + 2\<rparr>"
    if d: "(c0, c1) \<in> ?D" and tc: "two_char_operator (c0 # c1 # rest) = Some ty" for ty
  proof -
    from na [OF d] have "\<not> isalpha c0" "\<not> isdigit c0" by simp_all
    with tc have "munch_range (c0 # c1 # rest) = (ty, 2)" by (simp add: munch_range_def)
    with assms show ?thesis by (simp add: munch_token_def)
  qed
  have e1: "c0 = CHR ''!'' \<and> c1 = CHR ''='' \<longrightarrow>
            munch_token s first = \<lparr>token_type = TT_NotEq, tok_first = first, tok_last = first + 2\<rparr>"
    using mt [of TT_NotEq] by (simp add: two_char_operator_def)
  have e2: "c0 = CHR ''<'' \<and> c1 = CHR ''='' \<longrightarrow>
            munch_token s first = \<lparr>token_type = TT_Lte, tok_first = first, tok_last = first + 2\<rparr>"
    using mt [of TT_Lte] by (simp add: two_char_operator_def)
  have e3: "c0 = CHR ''>'' \<and> c1 = CHR ''='' \<longrightarrow>
            munch_token s first = \<lparr>token_type = TT_Gte, tok_first = first, tok_last = first + 2\<rparr>"
    using mt [of TT_Gte] by (simp add: two_char_operator_def)
  have e4: "c0 = CHR ''-'' \<and> c1 = CHR ''>'' \<longrightarrow>
            munch_token s first = \<lparr>token_type = TT_Arrow, tok_first = first, tok_last = first + 2\<rparr>"
    using mt [of TT_Arrow] by (simp add: two_char_operator_def)
  have e5: "c0 = CHR ''='' \<and> c1 = CHR ''='' \<longrightarrow>
            munch_token s first = \<lparr>token_type = TT_Equal, tok_first = first, tok_last = first + 2\<rparr>"
    using mt [of TT_Equal] by (simp add: two_char_operator_def)
  have len: "length rest + 2 + first = length s"
    using assms by (rule drop_Cons2_length)
  have step: "(c0, c1) \<in> ?D \<longrightarrow>
        lex_loop s first tokens = lex_loop s (first + 2) (tokens @ [munch_token s first])"
  proof
    assume d: "(c0, c1) \<in> ?D"
    with na have "\<not> isspace c0" "c0 \<noteq> CHR ''/''" by simp_all
    then have sk: "skip_whitespace_and_comments s first = (first, None)"
      using assms by (simp add: skip_whitespace_and_comments_def skip_loop_none)
    have lt: "first < length s" "first \<noteq> length s" using len by simp_all
    from d have "\<exists>ty. two_char_operator (c0 # c1 # rest) = Some ty"
      by (auto simp: two_char_operator_def)
    then obtain ty where "two_char_operator (c0 # c1 # rest) = Some ty" ..
    from mt [OF d this] have "tok_last (munch_token s first) = first + 2"
      by simp
    with lex_loop_step [OF lt(1) sk lt(2), of tokens] show
      "lex_loop s first tokens = lex_loop s (first + 2) (tokens @ [munch_token s first])"
      by simp
  qed
  from e1 e2 e3 e4 e5 step show ?thesis by (intro conjI)
qed

theorem munch_token_two_char_first_witness:
  "drop 2 ''a !=b'' = CHR ''!'' # CHR ''='' # ''b''
   \<and> munch_token ''a !=b'' 2 = \<lparr>token_type = TT_NotEq, tok_first = 2, tok_last = 4\<rparr>
   \<and> lex_loop ''a !=b'' 2 [] = lex_loop ''a !=b'' 4 [munch_token ''a !=b'' 2]"
proof -
  have h: "drop 2 ''a !=b'' = CHR ''!'' # CHR ''='' # ''b''" by simp
  note t = munch_token_two_char_first [OF h, of "[]"]
  from t have a: "munch_token ''a !=b'' 2 = \<lparr>token_type = TT_NotEq, tok_first = 2, tok_last = 4\<rparr>"
    by simp
  from t have b: "lex_loop ''a !=b'' 2 [] = lex_loop ''a !=b'' (2 + 2) ([] @ [munch_token ''a !=b'' 2])"
    by simp
  from h a b show ?thesis by simp
qed

lemma line_end_newline: "line_end xs < length xs \<Longrightarrow> xs ! line_end xs = CHR 0x0A"
  by (induction xs) (auto split: if_splits)

lemma line_end_before: "k < line_end xs \<Longrightarrow> xs ! k \<noteq> CHR 0x0A"
proof (induction xs arbitrary: k)
  case Nil
  then show ?case by simp
next
  case (Cons c cs)
  then show ?case by (cases k) (auto split: if_splits)
qed

lemma line_end_no_newline: "CHR 0x0A \<notin> set xs \<Longrightarrow> line_end xs = length xs"
  by (induction xs) auto

lemma line_end_first:
  "m < length xs \<Longrightarrow> xs ! m = CHR 0x0A \<Longrightarrow> (\<forall>k<m. xs ! k \<noteq> CHR 0x0A) \<Longrightarrow> line_end xs = m"
proof (induction xs arbitrary: m)
  case Nil
  then show ?case by simp
next
  case (Cons c cs)
  show ?case
  proof (cases m)
    case 0
    with Cons.prems show ?thesis by simp
  next
    case (Suc m')
    with Cons.prems have "c \<noteq> CHR 0x0A" by auto
    moreover from Suc Cons.prems have "line_end cs = m'"
      by (intro Cons.IH) auto
    ultimately show ?thesis using Suc by simp
  qed
qed

lemma block_scan_open:
  "(\<forall>k. Suc k < length xs \<longrightarrow> \<not> (xs ! k = CHR ''*'' \<and> xs ! Suc k = CHR ''/''))
   \<Longrightarrow> snd (block_scan xs) = False"
proof (induction xs rule: block_scan.induct)
  case (1 c0 c1 cs)
  from "1.prems" [rule_format, of 0] have n0: "\<not> (c0 = CHR ''*'' \<and> c1 = CHR ''/'')" by simp
  have "\<forall>k. Suc k < length (c1 # cs) \<longrightarrow>
          \<not> ((c1 # cs) ! k = CHR ''*'' \<and> (c1 # cs) ! Suc k = CHR ''/'')"
  proof (intro allI impI)
    fix k assume "Suc k < length (c1 # cs)"
    with "1.prems" [rule_format, of "Suc k"]
    show "\<not> ((c1 # cs) ! k = CHR ''*'' \<and> (c1 # cs) ! Suc k = CHR ''/'')" by simp
  qed
  with "1.IH" n0 have "snd (block_scan (c1 # cs)) = False" by blast
  with n0 show ?case by (auto split: prod.splits)
qed simp_all

lemma block_scan_closed:
  "block_scan xs = (m, True) \<Longrightarrow>
     2 \<le> m \<and> m \<le> length xs \<and> xs ! (m - 2) = CHR ''*'' \<and> xs ! (m - 1) = CHR ''/''
     \<and> (\<forall>k. Suc k < m - 1 \<longrightarrow> \<not> (xs ! k = CHR ''*'' \<and> xs ! Suc k = CHR ''/''))"
proof (induction xs arbitrary: m rule: block_scan.induct)
  case (1 c0 c1 cs)
  show ?case
  proof (cases "c0 = CHR ''*'' \<and> c1 = CHR ''/''")
    case True
    with "1.prems" show ?thesis by auto
  next
    case False
    with "1.prems" obtain m' where m': "block_scan (c1 # cs) = (m', True)" "m = Suc m'"
      by (auto split: prod.splits)
    from "1.IH" [OF False m'(1)]
    have ih: "2 \<le> m'" "m' \<le> length (c1 # cs)" "(c1 # cs) ! (m' - 2) = CHR ''*''"
      "(c1 # cs) ! (m' - 1) = CHR ''/''"
      "\<forall>k. Suc k < m' - 1 \<longrightarrow> \<not> ((c1 # cs) ! k = CHR ''*'' \<and> (c1 # cs) ! Suc k = CHR ''/'')"
      by simp_all
    have a: "(c0 # c1 # cs) ! (m - 2) = CHR ''*''"
      using ih(1) ih(3) m'(2) by (cases m') (auto simp: numeral_2_eq_2)
    have b: "(c0 # c1 # cs) ! (m - 1) = CHR ''/''"
      using ih(1) ih(4) m'(2) by (cases m') (auto simp: numeral_2_eq_2)
    have c: "\<forall>k. Suc k < m - 1 \<longrightarrow> \<not> ((c0 # c1 # cs) ! k = CHR ''*'' \<and> (c0 # c1 # cs) ! Suc k = CHR ''/'')"
    proof (intro allI impI)
      fix k assume k: "Suc k < m - 1"
      show "\<not> ((c0 # c1 # cs) ! k = CHR ''*'' \<and> (c0 # c1 # cs) ! Suc k = CHR ''/'')"
      proof (cases k)
        case 0
        with False show ?thesis by simp
      next
        case (Suc k')
        with k m'(2) have "Suc k' < m' - 1" by simp
        with ih(5) Suc show ?thesis by simp
      qed
    qed
    from ih(1) ih(2) m'(2) a b c show ?thesis by simp
  qed
qed simp_all

lemma skip_loop_space: "isspace c \<Longrightarrow> skip_loop p (c # cs) = skip_loop (Suc p) cs"
  apply (subst skip_loop.simps [of p "c # cs"])
  apply (subst skip_loop.simps [of "Suc p" cs])
  apply (simp add: Let_def split: list.splits prod.splits)
  done

lemma not_isspace_slash: "\<not> isspace (CHR ''/'')"
  by (simp add: isspace_def)

lemma skip_loop_line_closed:
  assumes "line_end rest < length rest"
  shows "skip_loop p (CHR ''/'' # CHR ''/'' # rest)
         = skip_loop (p + 2 + line_end rest + 1) (drop (line_end rest + 1) rest)"
proof -
  from assms have ne: "drop (line_end rest) rest \<noteq> []" by simp
  from assms have hd: "hd (drop (line_end rest) rest) = CHR 0x0A"
    by (simp add: hd_drop_conv_nth line_end_newline)
  have tl: "tl (drop (line_end rest) rest) = drop (line_end rest + 1) rest"
    by (simp add: drop_Suc tl_drop)
  show ?thesis
    apply (subst skip_loop.simps [of p "CHR ''/'' # CHR ''/'' # rest"])
    using ne hd tl apply (simp add: Let_def not_isspace_slash)
    done
qed

lemma skip_loop_line_open:
  assumes "line_end rest = length rest"
  shows "skip_loop p (CHR ''/'' # CHR ''/'' # rest)
         = (p + 2 + length rest,
            Some \<lparr>token_type = TT_Error, tok_first = p, tok_last = p + 2 + length rest\<rparr>)"
  apply (subst skip_loop.simps [of p "CHR ''/'' # CHR ''/'' # rest"])
  using assms apply (simp add: Let_def not_isspace_slash)
  done

lemma skip_loop_block_closed:
  assumes "block_scan rest = (m, True)"
  shows "skip_loop p (CHR ''/'' # CHR ''*'' # rest) = skip_loop (p + 2 + m) (drop m rest)"
  apply (subst skip_loop.simps [of p "CHR ''/'' # CHR ''*'' # rest"])
  using assms apply (simp add: Let_def not_isspace_slash)
  done

lemma skip_loop_block_open:
  assumes "snd (block_scan rest) = False"
  shows "skip_loop p (CHR ''/'' # CHR ''*'' # rest)
         = (p + 2 + length rest,
            Some \<lparr>token_type = TT_Error, tok_first = p, tok_last = p + 2 + length rest\<rparr>)"
proof -
  from assms obtain m where "block_scan rest = (m, False)" by (cases "block_scan rest") simp
  then show ?thesis
    apply (subst skip_loop.simps [of p "CHR ''/'' # CHR ''*'' # rest"])
    apply (simp add: Let_def not_isspace_slash)
    done
qed

lemma skip_reaches_le: "skip_reaches s a b \<Longrightarrow> a \<le> b"
  by (induction rule: skip_reaches.induct) auto

lemma skip_reaches_eq:
  "skip_reaches s a b \<Longrightarrow> skip_loop a (drop a s) = skip_loop b (drop b s)"
proof (induction rule: skip_reaches.induct)
  case (skip_here a)
  show ?case by simp
next
  case (skip_space a b)
  from skip_space.hyps(1) have "drop a s = s ! a # drop (Suc a) s"
    by (simp add: Cons_nth_drop_Suc)
  with skip_space show ?case by (simp add: skip_loop_space)
next
  case (skip_line a rest b)
  from skip_line.hyps(1) have r: "rest = drop (a + 2) s"
    by (metis drop_drop add.commute drop_Suc_Cons drop0 numeral_2_eq_2)
  have "drop (line_end rest + 1) rest = drop (a + 2 + line_end rest + 1) s"
    unfolding r by (simp add: add.commute add.left_commute)
  with skip_line show ?case by (simp add: skip_loop_line_closed)
next
  case (skip_block a rest m b)
  from skip_block.hyps(1) have r: "rest = drop (a + 2) s"
    by (metis drop_drop add.commute drop_Suc_Cons drop0 numeral_2_eq_2)
  have "drop m rest = drop (a + 2 + m) s"
    unfolding r by (simp add: add.commute add.left_commute)
  with skip_block show ?case by (simp add: skip_loop_block_closed)
qed

lemma lex_loop_skip_error:
  assumes "cur \<noteq> length s" and "skip_whitespace_and_comments s cur = (n, Some e)"
  shows "lex_loop s cur tokens = Some (tokens @ [e])"
  using assms by (subst lex_loop.simps) simp

lemma skip_at_end: "skip_whitespace_and_comments s (length s) = (length s, None)"
  by (simp add: skip_whitespace_and_comments_def skip_loop.simps [of "length s" "[]"])

lemma lex_loop_same_skip:
  assumes "skip_whitespace_and_comments s cur = skip_whitespace_and_comments s cur'"
  shows "lex_loop s cur tokens = lex_loop s cur' tokens"
proof -
  have body: "\<And>c. c \<noteq> length s \<Longrightarrow> lex_loop s c tokens =
     (case skip_whitespace_and_comments s c of
           (next_char, Some err_tok) \<Rightarrow> Some (tokens @ [err_tok])
         | (next_char, None) \<Rightarrow>
             if next_char = length s then Some tokens
             else (let tok = munch_token s next_char
                   in lex_loop s (tok_last tok) (tokens @ [tok])))"
    by (subst lex_loop.simps) simp
  have fin: "lex_loop s (length s) tokens = Some tokens"
    by (subst lex_loop.simps) simp
  show ?thesis
  proof (cases "cur = length s")
    case True
    show ?thesis
    proof (cases "cur' = length s")
      case True
      with \<open>cur = length s\<close> show ?thesis by simp
    next
      case False
      from assms True have "skip_whitespace_and_comments s cur' = (length s, None)"
        by (simp add: skip_at_end)
      with body [OF False] fin True show ?thesis by simp
    qed
  next
    case False
    note c1 = False
    show ?thesis
    proof (cases "cur' = length s")
      case True
      from assms True have "skip_whitespace_and_comments s cur = (length s, None)"
        by (simp add: skip_at_end)
      with body [OF c1] fin True show ?thesis by simp
    next
      case False
      from body [OF c1] body [OF False] assms show ?thesis by simp
    qed
  qed
qed

lemma drop_Cons2_rest: "drop i s = a # b # rest \<Longrightarrow> rest = drop (i + 2) s"
  by (metis drop_drop add.commute drop_Suc_Cons drop0 numeral_2_eq_2)

lemma lex_reaches_lex: "lex_reaches s cur tokens \<Longrightarrow> lex s = lex_loop s cur tokens"
proof (induction rule: lex_reaches.induct)
  case lex_start
  show ?case by (simp add: lex_def)
next
  case (lex_token cur tokens next_char)
  have "lex_loop s cur tokens
        = lex_loop s (tok_last (munch_token s next_char)) (tokens @ [munch_token s next_char])"
    using lex_token.hyps(2,3,4) by (subst lex_loop.simps) (simp add: Let_def)
  with lex_token.IH show ?case by simp
qed

lemma skip_spaceI:
  "a < length s \<Longrightarrow> isspace (s ! a) \<Longrightarrow> a' = Suc a \<Longrightarrow> skip_reaches s a' b
   \<Longrightarrow> skip_reaches s a b"
  by (auto intro: skip_space)

text \<open>
  Claim C4.  Wherever the skipper, started at the cursor \<open>cur\<close> of the loop of \<^verbatim>\<open>lex\<close>,
  gets to a block comment opener \<^verbatim>\<open>/*\<close> at offset \<open>i\<close> after which no \<^verbatim>\<open>*/\<close> follows,
  the loop returns the tokens collected so far followed by exactly one more token: an Error
  token whose lexeme runs from the \<^verbatim>\<open>/*\<close> to the end of the buffer.  So for every state that
  the loop of \<^verbatim>\<open>lex\<close> gets to, this is what \<^verbatim>\<open>lex\<close> returns: the Error token is the last token
  of the stream.  With the cursor at the start of the buffer it is the only token.
\<close>

theorem unterminated_block_comment_last:
  assumes reach: "skip_reaches s cur i"
      and opener: "drop i s = CHR ''/'' # CHR ''*'' # rest"
      and noclose: "\<forall>k. Suc k < length rest \<longrightarrow> \<not> (rest ! k = CHR ''*'' \<and> rest ! Suc k = CHR ''/'')"
  shows "lex_loop s cur tokens
           = Some (tokens @ [\<lparr>token_type = TT_Error, tok_first = i, tok_last = length s\<rparr>])
         \<and> (lex_reaches s cur tokens \<longrightarrow>
              lex s = Some (tokens @ [\<lparr>token_type = TT_Error, tok_first = i, tok_last = length s\<rparr>]))
         \<and> (cur = 0 \<longrightarrow>
              lex s = Some [\<lparr>token_type = TT_Error, tok_first = i, tok_last = length s\<rparr>])"
proof -
  from opener have len: "length rest + 2 + i = length s" by (rule drop_Cons2_length)
  from skip_reaches_le [OF reach] len have ne: "cur \<noteq> length s" by simp
  from noclose have "snd (block_scan rest) = False" by (rule block_scan_open)
  then have "skip_loop i (drop i s)
     = (i + 2 + length rest,
        Some \<lparr>token_type = TT_Error, tok_first = i, tok_last = i + 2 + length rest\<rparr>)"
    unfolding opener by (rule skip_loop_block_open)
  moreover have "i + 2 + length rest = length s" using len by simp
  ultimately have "skip_loop i (drop i s)
     = (length s, Some \<lparr>token_type = TT_Error, tok_first = i, tok_last = length s\<rparr>)"
    by simp
  with skip_reaches_eq [OF reach]
  have sk: "skip_whitespace_and_comments s cur
     = (length s, Some \<lparr>token_type = TT_Error, tok_first = i, tok_last = length s\<rparr>)"
    by (simp add: skip_whitespace_and_comments_def)
  have g: "lex_loop s cur ts
          = Some (ts @ [\<lparr>token_type = TT_Error, tok_first = i, tok_last = length s\<rparr>])" for ts
    by (rule lex_loop_skip_error [OF ne sk])
  from g [of tokens] g [of "[]"] show ?thesis by (auto simp: lex_def dest: lex_reaches_lex)
qed

theorem unterminated_block_comment_last_witness:
  "skip_reaches ''x /* a */ /* b'' 1 10
   \<and> drop 10 ''x /* a */ /* b'' = CHR ''/'' # CHR ''*'' # '' b''
   \<and> lex_reaches ''x /* a */ /* b'' 1 [\<lparr>token_type = TT_Id, tok_first = 0, tok_last = 1\<rparr>]
   \<and> lex_loop ''x /* a */ /* b'' 1 [\<lparr>token_type = TT_Id, tok_first = 0, tok_last = 1\<rparr>]
       = Some [\<lparr>token_type = TT_Id, tok_first = 0, tok_last = 1\<rparr>,
               \<lparr>token_type = TT_Error, tok_first = 10, tok_last = 14\<rparr>]
   \<and> lex ''x /* a */ /* b''
       = Some [\<lparr>token_type = TT_Id, tok_first = 0, tok_last = 1\<rparr>,
               \<lparr>token_type = TT_Error, tok_first = 10, tok_last = 14\<rparr>]"
proof -
  let ?s = "''x /* a */ /* b''"
  have r3: "skip_reaches ?s 10 10" by (rule skip_here)
  have r2: "skip_reaches ?s 9 10"
    by (rule skip_spaceI [OF _ _ _ r3]) (simp_all add: isspace_def)
  then have r2': "skip_reaches ?s (2 + 2 + 5) 10" by simp
  have r1: "skip_reaches ?s 2 10"
    by (rule skip_block [where rest = "'' a */ /* b''", OF _ _ r2']) simp_all
  have r0: "skip_reaches ?s 1 10"
    by (rule skip_spaceI [OF _ _ _ r1]) (simp_all add: isspace_def)
  have op: "drop 10 ?s = CHR ''/'' # CHR ''*'' # '' b''" by simp
  have nc: "\<forall>k. Suc k < length '' b'' \<longrightarrow> \<not> ('' b'' ! k = CHR ''*'' \<and> '' b'' ! Suc k = CHR ''/'')"
    by (simp add: less_Suc_eq)
  have sk: "skip_whitespace_and_comments ?s 0 = (0, None)" by code_simp
  have mt: "munch_token ?s 0 = \<lparr>token_type = TT_Id, tok_first = 0, tok_last = 1\<rparr>" by code_simp
  have "lex_reaches ?s (tok_last (munch_token ?s 0)) ([] @ [munch_token ?s 0])"
    by (rule lex_token [OF lex_start _ sk]) simp_all
  then have lr: "lex_reaches ?s 1 [\<lparr>token_type = TT_Id, tok_first = 0, tok_last = 1\<rparr>]"
    by (simp add: mt)
  from unterminated_block_comment_last [OF r0 op nc,
      of "[\<lparr>token_type = TT_Id, tok_first = 0, tok_last = 1\<rparr>]"] r0 op lr
  show ?thesis by simp
qed

text \<open>
  Claim C3.  A line comment \<^verbatim>\<open>//\<close> at offset \<open>i\<close> with no newline up to the end of the buffer
  makes the loop of \<^verbatim>\<open>lex\<close> return the tokens collected so far followed by one Error
  token from the \<^verbatim>\<open>//\<close> to the end of the buffer, and nothing more; this is then what
  \<^verbatim>\<open>lex\<close> returns, for every state that its loop gets to.  A line comment whose
  first newline is at offset \<open>j\<close> is skipped together with that newline: the skipper and
  the loop behave at \<open>i\<close> as they do at \<open>j + 1\<close>.
\<close>

theorem line_comment_eof_error:
  assumes opener: "drop i s = CHR ''/'' # CHR ''/'' # rest"
  shows "(skip_reaches s cur i \<and> CHR 0x0A \<notin> set rest \<longrightarrow>
            lex_loop s cur tokens
              = Some (tokens @ [\<lparr>token_type = TT_Error, tok_first = i, tok_last = length s\<rparr>])
            \<and> (lex_reaches s cur tokens \<longrightarrow>
                 lex s = Some (tokens @ [\<lparr>token_type = TT_Error, tok_first = i, tok_last = length s\<rparr>])))
         \<and> (\<forall>j. i + 2 \<le> j \<and> j < length s \<and> s ! j = CHR 0x0A
                 \<and> (\<forall>k. i + 2 \<le> k \<and> k < j \<longrightarrow> s ! k \<noteq> CHR 0x0A) \<longrightarrow>
               skip_whitespace_and_comments s i = skip_whitespace_and_comments s (Suc j)
               \<and> lex_loop s i tokens = lex_loop s (Suc j) tokens)"
proof -
  have eof: "lex_loop s cur tokens
              = Some (tokens @ [\<lparr>token_type = TT_Error, tok_first = i, tok_last = length s\<rparr>])
            \<and> (lex_reaches s cur tokens \<longrightarrow>
                 lex s = Some (tokens @ [\<lparr>token_type = TT_Error, tok_first = i, tok_last = length s\<rparr>]))"
    if reach: "skip_reaches s cur i" and nonl: "CHR 0x0A \<notin> set rest"
  proof -
  from opener have len: "length rest + 2 + i = length s" by (rule drop_Cons2_length)
  from skip_reaches_le [OF reach] len have ne: "cur \<noteq> length s" by simp
  from nonl have "line_end rest = length rest" by (rule line_end_no_newline)
  then have "skip_loop i (drop i s)
     = (i + 2 + length rest,
        Some \<lparr>token_type = TT_Error, tok_first = i, tok_last = i + 2 + length rest\<rparr>)"
    unfolding opener by (rule skip_loop_line_open)
  moreover have "i + 2 + length rest = length s" using len by simp
  ultimately have "skip_loop i (drop i s)
     = (length s, Some \<lparr>token_type = TT_Error, tok_first = i, tok_last = length s\<rparr>)"
    by simp
  with skip_reaches_eq [OF reach]
  have sk: "skip_whitespace_and_comments s cur
     = (length s, Some \<lparr>token_type = TT_Error, tok_first = i, tok_last = length s\<rparr>)"
    by (simp add: skip_whitespace_and_comments_def)
  have "lex_loop s cur tokens
          = Some (tokens @ [\<lparr>token_type = TT_Error, tok_first = i, tok_last = length s\<rparr>])"
    by (rule lex_loop_skip_error [OF ne sk])
  then show ?thesis by (auto dest: lex_reaches_lex)
  qed
  have nl: "skip_whitespace_and_comments s i = skip_whitespace_and_comments s (Suc j)
            \<and> lex_loop s i tokens = lex_loop s (Suc j) tokens"
    if h: "i + 2 \<le> j \<and> j < length s \<and> s ! j = CHR 0x0A
             \<and> (\<forall>k. i + 2 \<le> k \<and> k < j \<longrightarrow> s ! k \<noteq> CHR 0x0A)" for j
  proof -
  have r: "rest = drop (i + 2) s" using opener by (rule drop_Cons2_rest)
  define m where "m = j - (i + 2)"
  from h have j: "j = i + 2 + m" by (auto simp: m_def)
  from h j have m1: "m < length rest" by (auto simp: r)
  from h j have m2: "rest ! m = CHR 0x0A" by (auto simp: r)
  have m3: "\<forall>k<m. rest ! k \<noteq> CHR 0x0A"
  proof (intro allI impI)
    fix k assume "k < m"
    with h j have "s ! (i + 2 + k) \<noteq> CHR 0x0A" by auto
    with \<open>k < m\<close> m1 show "rest ! k \<noteq> CHR 0x0A" by (simp add: r)
  qed
  from line_end_first [OF m1 m2 m3] have le: "line_end rest = m" .
  with m1 have "line_end rest < length rest" by simp
  from skip_loop_line_closed [OF this, of i]
  have "skip_loop i (drop i s) = skip_loop (i + 2 + m + 1) (drop (m + 1) rest)"
    unfolding opener le .
  moreover have "drop (m + 1) rest = drop (Suc j) s"
    unfolding r j by (simp add: add.commute add.left_commute)
  moreover have "i + 2 + m + 1 = Suc j" using j by simp
  ultimately have sk: "skip_whitespace_and_comments s i = skip_whitespace_and_comments s (Suc j)"
    by (simp add: skip_whitespace_and_comments_def)
  then have "lex_loop s i tokens = lex_loop s (Suc j) tokens"
    by (rule lex_loop_same_skip)
  with sk show ?thesis by (rule conjI)
  qed
  from eof nl show ?thesis by blast
qed

theorem line_comment_eof_error_witness:
  "drop 2 ''; // x'' = CHR ''/'' # CHR ''/'' # '' x''
   \<and> skip_reaches ''; // x'' 1 2 \<and> CHR 0x0A \<notin> set '' x''
   \<and> lex_loop ''; // x'' 1 [\<lparr>token_type = TT_Semicolon, tok_first = 0, tok_last = 1\<rparr>]
       = Some [\<lparr>token_type = TT_Semicolon, tok_first = 0, tok_last = 1\<rparr>,
               \<lparr>token_type = TT_Error, tok_first = 2, tok_last = 6\<rparr>]
   \<and> lex_reaches ''; // x'' 1 [\<lparr>token_type = TT_Semicolon, tok_first = 0, tok_last = 1\<rparr>]
   \<and> lex ''; // x''
       = Some [\<lparr>token_type = TT_Semicolon, tok_first = 0, tok_last = 1\<rparr>,
               \<lparr>token_type = TT_Error, tok_first = 2, tok_last = 6\<rparr>]
   \<and> drop 0 [CHR ''/'', CHR ''/'', CHR ''a'', CHR 0x0A, CHR '';''] = CHR ''/'' # CHR ''/'' # [CHR ''a'', CHR 0x0A, CHR '';'']
   \<and> [CHR ''/'', CHR ''/'', CHR ''a'', CHR 0x0A, CHR '';''] ! 3 = CHR 0x0A
   \<and> lex_loop [CHR ''/'', CHR ''/'', CHR ''a'', CHR 0x0A, CHR '';''] 0 []
       = lex_loop [CHR ''/'', CHR ''/'', CHR ''a'', CHR 0x0A, CHR '';''] 4 []"
proof -
  let ?s = "''; // x''"
  have op: "drop 2 ?s = CHR ''/'' # CHR ''/'' # '' x''" by simp
  have r1: "skip_reaches ?s 2 2" by (rule skip_here)
  have r0: "skip_reaches ?s 1 2"
    by (rule skip_spaceI [OF _ _ _ r1]) (simp_all add: isspace_def)
  have nn: "CHR 0x0A \<notin> set '' x''" by simp
  let ?semi = "\<lparr>token_type = TT_Semicolon, tok_first = 0, tok_last = 1\<rparr>"
  have sk: "skip_whitespace_and_comments ?s 0 = (0, None)" by code_simp
  have mt: "munch_token ?s 0 = ?semi" by code_simp
  have "lex_reaches ?s (tok_last (munch_token ?s 0)) ([] @ [munch_token ?s 0])"
    by (rule lex_token [OF lex_start _ sk]) simp_all
  then have lr: "lex_reaches ?s 1 [?semi]"
    by (simp add: mt)
  from line_comment_eof_error [OF op, of 1 "[?semi]"] r0 nn lr
  have a: "lex_loop ?s 1 [?semi]
             = Some ([?semi] @ [\<lparr>token_type = TT_Error, tok_first = 2, tok_last = length ?s\<rparr>])
           \<and> lex ?s
             = Some ([?semi] @ [\<lparr>token_type = TT_Error, tok_first = 2, tok_last = length ?s\<rparr>])"
    by blast
  let ?t = "[CHR ''/'', CHR ''/'', CHR ''a'', CHR 0x0A, CHR '';'']"
  have op2: "drop 0 ?t = CHR ''/'' # CHR ''/'' # [CHR ''a'', CHR 0x0A, CHR '';'']" by simp
  have j: "0 + 2 \<le> (3::nat) \<and> 3 < length ?t \<and> ?t ! 3 = CHR 0x0A
           \<and> (\<forall>k. 0 + 2 \<le> k \<and> k < 3 \<longrightarrow> ?t ! k \<noteq> CHR 0x0A)"
  proof (intro conjI allI impI)
    fix k :: nat assume "0 + 2 \<le> k \<and> k < 3"
    then have "k = 2" by arith
    then show "?t ! k \<noteq> CHR 0x0A" by simp
  qed simp_all
  from line_comment_eof_error [OF op2, of 0 "[]"]
  have "\<forall>j. 0 + 2 \<le> j \<and> j < length ?t \<and> ?t ! j = CHR 0x0A
                 \<and> (\<forall>k. 0 + 2 \<le> k \<and> k < j \<longrightarrow> ?t ! k \<noteq> CHR 0x0A) \<longrightarrow>
               skip_whitespace_and_comments ?t 0 = skip_whitespace_and_comments ?t (Suc j)
               \<and> lex_loop ?t 0 [] = lex_loop ?t (Suc j) []"
    by (rule conjunct2)
  from this [rule_format, OF j] have b: "lex_loop ?t 0 [] = lex_loop ?t (Suc 3) []"
    by (rule conjunct2)
  from op r0 nn a lr op2 b show ?thesis by simp
qed

lemma keyword_or_id_not_error: "keyword_or_id lexeme \<noteq> TT_Error"
  by (simp add: keyword_or_id_def)

lemma two_char_operator_not_error: "two_char_operator xs \<noteq> Some TT_Error"
  by (simp add: two_char_operator_def)

lemma one_char_operator_not_error: "one_char_operator c \<noteq> Some TT_Error"
  by (simp add: one_char_operator_def)

lemma one_char_operator_iff: "one_char_operator c \<noteq> None \<longleftrightarrow> starts_one_char_token c"
  by (simp add: one_char_operator_def starts_one_char_token_def)

lemma two_char_operator_iff:
  "starts_two_char_token xs \<longleftrightarrow>
     two_char_operator xs \<noteq> None \<or> take 2 xs = ''//'' \<or> take 2 xs = ''/*''"
proof (cases xs)
  case Nil
  then show ?thesis by (simp add: two_char_operator_def)
next
  case (Cons p0 ys)
  show ?thesis
  proof (cases ys)
    case Nil
    with Cons show ?thesis by (simp add: two_char_operator_def)
  next
    case (Cons p1 rest)
    with \<open>xs = p0 # ys\<close> show ?thesis by (auto simp: two_char_operator_def)
  qed
qed

lemma starts_token_iff:
  "starts_token xs \<longleftrightarrow>
     xs \<noteq> [] \<and> (isalpha (hd xs) \<or> isdigit (hd xs) \<or> two_char_operator xs \<noteq> None
                 \<or> one_char_operator (hd xs) \<noteq> None)"
proof (cases xs)
  case Nil
  then show ?thesis by simp
next
  case (Cons c cs)
  have "take 2 (c # cs) = ''//'' \<or> take 2 (c # cs) = ''/*'' \<Longrightarrow> starts_one_char_token c"
    by (cases cs) (auto simp: starts_one_char_token_def)
  then show ?thesis
    using Cons two_char_operator_iff [of "c # cs"] one_char_operator_iff [of c]
    by auto
qed

lemma starts_token_munch: "starts_token xs \<longleftrightarrow> fst (munch_range xs) \<noteq> TT_Error"
proof (cases xs)
  case Nil
  then show ?thesis by (simp add: munch_range_def)
next
  case (Cons c cs)
  show ?thesis
    unfolding starts_token_iff
    using Cons keyword_or_id_not_error two_char_operator_not_error [of xs]
      one_char_operator_not_error [of c]
    by (auto simp: munch_range_def Let_def split: option.splits)
qed

lemma error_scan_spec:
  "error_scan xs \<le> length xs
   \<and> (\<forall>k<error_scan xs. \<not> starts_token (drop k xs))
   \<and> (error_scan xs < length xs \<longrightarrow> starts_token (drop (error_scan xs) xs))"
proof (induction xs)
  case Nil
  show ?case by simp
next
  case (Cons c cs)
  show ?case
  proof (cases "starts_token (c # cs)")
    case True
    then show ?thesis by (simp del: starts_token.simps)
  next
    case False
    have "\<forall>k<Suc (error_scan cs). \<not> starts_token (drop k (c # cs))"
    proof (intro allI impI)
      fix k assume k: "k < Suc (error_scan cs)"
      show "\<not> starts_token (drop k (c # cs))"
      proof (cases k)
        case 0
        with False show ?thesis by (simp del: starts_token.simps)
      next
        case (Suc k')
        with k Cons.IH show ?thesis by (simp del: starts_token.simps)
      qed
    qed
    with False Cons.IH show ?thesis by (simp del: starts_token.simps)
  qed
qed

lemma isspace_not_starts: "isspace c \<Longrightarrow> \<not> starts_token (c # cs)"
proof -
  assume sp: "isspace c"
  have a: "\<not> isalpha c"
    using sp unfolding isspace_def by (elim disjE) (simp_all add: isalpha_def)
  have d: "\<not> isdigit c"
    using sp unfolding isspace_def by (elim disjE) (simp_all add: isdigit_def)
  have o: "\<not> starts_one_char_token c"
    using sp unfolding isspace_def by (elim disjE) (simp_all add: starts_one_char_token_def)
  have t: "\<not> starts_two_char_token (c # cs)"
  proof (cases cs)
    case Nil
    then show ?thesis by simp
  next
    case (Cons c1 rest)
    have "c \<noteq> CHR ''!'' \<and> c \<noteq> CHR ''<'' \<and> c \<noteq> CHR ''>'' \<and> c \<noteq> CHR ''-''
          \<and> c \<noteq> CHR ''='' \<and> c \<noteq> CHR ''/''"
      using sp unfolding isspace_def by (elim disjE) simp_all
    with Cons show ?thesis by simp
  qed
  from a d o t show ?thesis by simp
qed

lemma drop_Cons_rest: "drop i s = c # cs \<Longrightarrow> cs = drop (Suc i) s"
  by (metis drop_Suc tl_drop list.sel(3))

lemma drop_Cons_length: "drop i s = c # cs \<Longrightarrow> length cs + 1 + i = length s"
proof -
  assume h: "drop i s = c # cs"
  have "length (drop i s) = length s - i" by simp
  with h have "length cs + 1 = length s - i" by simp
  then show ?thesis by arith
qed

lemma two_char_needs_one_char:
  "c \<noteq> CHR ''!'' \<Longrightarrow> starts_two_char_token (c # cs) \<Longrightarrow> starts_one_char_token c"
  by (cases cs) (auto simp: starts_one_char_token_def)

lemma two_char_bang:
  "starts_two_char_token (CHR ''!'' # cs) \<longleftrightarrow> cs \<noteq> [] \<and> hd cs = CHR ''=''"
  by (cases cs) simp_all

lemma operator_lead_byte_iff:
  "operator_lead_byte c \<longleftrightarrow> c = CHR ''!'' \<or> starts_one_char_token c"
  unfolding operator_lead_byte_def one_char_operator_iff
  by (auto simp: starts_one_char_token_def)

lemma comment_opener_one_char:
  "take 2 (c # cs) = ''//'' \<or> take 2 (c # cs) = ''/*'' \<Longrightarrow> starts_one_char_token c"
  by (cases cs) (auto simp: starts_one_char_token_def)

lemma bang_no_class:
  "\<not> isalpha (CHR ''!'') \<and> \<not> isdigit (CHR ''!'') \<and> \<not> starts_one_char_token (CHR ''!'')"
  by (simp add: isalpha_def isdigit_def starts_one_char_token_def)

lemma starts_token_spec:
  "starts_token (c # cs) \<longleftrightarrow>
     spec_token_start (c # cs) \<and> \<not> (c = CHR ''!'' \<and> (cs = [] \<or> hd cs \<noteq> CHR ''=''))"
proof (cases "c = CHR ''!''")
  case True
  have "starts_token (CHR ''!'' # cs) \<longleftrightarrow> starts_two_char_token (CHR ''!'' # cs)"
    using bang_no_class by simp
  moreover have "spec_token_start (CHR ''!'' # cs)"
    by (simp add: operator_lead_byte_iff)
  ultimately show ?thesis
    unfolding True two_char_bang by blast
next
  case False
  have a: "starts_token (c # cs) \<longleftrightarrow>
           isalpha c \<or> isdigit c \<or> starts_two_char_token (c # cs) \<or> starts_one_char_token c"
    by simp
  have b: "spec_token_start (c # cs) \<longleftrightarrow>
           isalpha c \<or> isdigit c \<or> operator_lead_byte c
           \<or> take 2 (c # cs) = ''//'' \<or> take 2 (c # cs) = ''/*''"
    by simp
  from False two_char_needs_one_char [of c cs] comment_opener_one_char [of c cs]
    operator_lead_byte_iff [of c]
  show ?thesis unfolding a b by blast
qed

lemma error_scan_spec_agree:
  "CHR ''!'' \<notin> set xs \<Longrightarrow> error_scan xs = spec_error_scan xs"
proof (induction xs)
  case Nil
  show ?case by simp
next
  case (Cons c cs)
  then have "c \<noteq> CHR ''!''" and "CHR ''!'' \<notin> set cs" by auto
  with Cons.IH starts_token_spec [of c cs] show ?case by simp
qed

lemma error_end_spec_agree:
  "CHR ''!'' \<notin> set (tl xs) \<Longrightarrow> error_end xs = spec_error_end xs"
  by (cases xs) (simp_all add: error_scan_spec_agree)

text \<open>
  Claim C5, with the extent made precise.  Where the range at \<^verbatim>\<open>first\<close> starts with a byte
  that is no letter, no digit and no operator, \<^verbatim>\<open>munch_token\<close> returns an Error token that
  starts at \<^verbatim>\<open>first\<close>, holds at least one byte, and ends at the first later offset where a
  token can start, or at the end of the buffer; no offset inside the lexeme after its
  first byte starts a token.  A token can start exactly at a letter, a digit, a
  two-character operator, a one-character operator (a comment opener begins with one,
  \<^verbatim>\<open>/\<close>); whitespace never starts a token, so it is absorbed into the lexeme.  Every first
  byte of an operator is itself a one-character operator, but for \<^verbatim>\<open>!\<close>: it starts a token
  only where \<^verbatim>\<open>=\<close> follows it, and is absorbed into the lexeme elsewhere.  Where no \<^verbatim>\<open>!\<close>
  follows the first byte, the lexeme ends where the words of the specification put its
  end.
\<close>

theorem error_token_extent:
  assumes range: "drop first s = c # cs"
      and na: "\<not> isalpha c" and nd: "\<not> isdigit c"
      and n2: "two_char_operator (c # cs) = None" and n1: "one_char_operator c = None"
  shows "token_type (munch_token s first) = TT_Error
       \<and> tok_first (munch_token s first) = first
       \<and> first < tok_last (munch_token s first)
       \<and> tok_last (munch_token s first) \<le> length s
       \<and> (\<forall>k. first < k \<and> k < tok_last (munch_token s first) \<longrightarrow> \<not> starts_token (drop k s))
       \<and> (tok_last (munch_token s first) < length s \<longrightarrow>
            starts_token (drop (tok_last (munch_token s first)) s))
       \<and> (\<forall>k. k < length s \<and> isspace (s ! k) \<longrightarrow> \<not> starts_token (drop k s))
       \<and> (\<forall>k. starts_token (drop k s) \<longleftrightarrow>
              k < length s \<and> (isalpha (s ! k) \<or> isdigit (s ! k)
                 \<or> two_char_operator (drop k s) \<noteq> None \<or> one_char_operator (s ! k) \<noteq> None))
       \<and> (\<forall>k. take 2 (drop k s) = ''//'' \<or> take 2 (drop k s) = ''/*'' \<longrightarrow>
              starts_token (drop k s))
       \<and> (\<forall>k rest. drop k s = CHR ''!'' # rest \<longrightarrow>
              (starts_token (drop k s) \<longleftrightarrow> rest \<noteq> [] \<and> hd rest = CHR ''=''))
       \<and> (CHR ''!'' \<notin> set cs \<longrightarrow>
              tok_last (munch_token s first) = first + spec_error_end (c # cs))"
proof -
  let ?e = "first + Suc (error_scan cs)"
  from na nd n2 n1 have "munch_range (c # cs) = (TT_Error, Suc (error_scan cs))"
    by (simp add: munch_range_def)
  with range have mt: "munch_token s first
      = \<lparr>token_type = TT_Error, tok_first = first, tok_last = ?e\<rparr>"
    by (simp add: munch_token_def)
  have cs: "cs = drop (Suc first) s" using range by (rule drop_Cons_rest)
  have len: "length cs + 1 + first = length s" using range by (rule drop_Cons_length)
  note sp = error_scan_spec [of cs]
  have le: "?e \<le> length s" using sp len by simp
  have before: "\<forall>k. first < k \<and> k < ?e \<longrightarrow> \<not> starts_token (drop k s)"
  proof (intro allI impI)
    fix k assume k: "first < k \<and> k < ?e"
    define k' where "k' = k - Suc first"
    from k have kk: "k = Suc first + k'" "k' < error_scan cs" by (auto simp: k'_def)
    from sp kk(2) have "\<not> starts_token (drop k' cs)" by simp
    moreover have "drop k' cs = drop k s" unfolding cs kk(1) by (simp add: add.commute)
    ultimately show "\<not> starts_token (drop k s)" by simp
  qed
  have at: "?e < length s \<longrightarrow> starts_token (drop ?e s)"
  proof
    assume "?e < length s"
    with len have "error_scan cs < length cs" by simp
    with sp have "starts_token (drop (error_scan cs) cs)" by simp
    moreover have "drop (error_scan cs) cs = drop ?e s" unfolding cs by (simp add: add.commute)
    ultimately show "starts_token (drop ?e s)" by simp
  qed
  have ws: "\<forall>k. k < length s \<and> isspace (s ! k) \<longrightarrow> \<not> starts_token (drop k s)"
  proof (intro allI impI)
    fix k assume k: "k < length s \<and> isspace (s ! k)"
    then have "drop k s = s ! k # drop (Suc k) s" by (simp add: Cons_nth_drop_Suc)
    with k isspace_not_starts [of "s ! k" "drop (Suc k) s"]
    show "\<not> starts_token (drop k s)" by simp
  qed
  have ch: "\<forall>k. starts_token (drop k s) \<longleftrightarrow>
              k < length s \<and> (isalpha (s ! k) \<or> isdigit (s ! k)
                 \<or> two_char_operator (drop k s) \<noteq> None \<or> one_char_operator (s ! k) \<noteq> None)"
  proof
    fix k
    show "starts_token (drop k s) \<longleftrightarrow>
              k < length s \<and> (isalpha (s ! k) \<or> isdigit (s ! k)
                 \<or> two_char_operator (drop k s) \<noteq> None \<or> one_char_operator (s ! k) \<noteq> None)"
    proof (cases "k < length s")
      case True
      then have "drop k s \<noteq> []" "hd (drop k s) = s ! k" by (simp_all add: hd_drop_conv_nth)
      with True show ?thesis by (simp add: starts_token_iff [of "drop k s"])
    next
      case False
      then show ?thesis by simp
    qed
  qed
  have op: "\<forall>k. take 2 (drop k s) = ''//'' \<or> take 2 (drop k s) = ''/*'' \<longrightarrow>
              starts_token (drop k s)"
  proof (intro allI impI)
    fix k assume "take 2 (drop k s) = ''//'' \<or> take 2 (drop k s) = ''/*''"
    then have "starts_two_char_token (drop k s)" by (simp add: two_char_operator_iff)
    then show "starts_token (drop k s)" by (cases "drop k s") simp_all
  qed
  have bang: "\<forall>k rest. drop k s = CHR ''!'' # rest \<longrightarrow>
              (starts_token (drop k s) \<longleftrightarrow> rest \<noteq> [] \<and> hd rest = CHR ''='')"
  proof (intro allI impI)
    fix k rest assume d: "drop k s = CHR ''!'' # rest"
    show "starts_token (drop k s) \<longleftrightarrow> rest \<noteq> [] \<and> hd rest = CHR ''=''"
      unfolding d by (cases rest) (simp_all add: isalpha_def isdigit_def starts_one_char_token_def)
  qed
  have agree: "CHR ''!'' \<notin> set cs \<longrightarrow> ?e = first + spec_error_end (c # cs)"
    by (simp add: error_scan_spec_agree)
  show ?thesis
    unfolding mt using le before at ws ch op bang agree by simp
qed

theorem error_token_extent_witness:
  "drop 2 ''a @ #b'' = CHR ''@'' # '' #b''
   \<and> \<not> isalpha (CHR ''@'') \<and> \<not> isdigit (CHR ''@'')
   \<and> two_char_operator (CHR ''@'' # '' #b'') = None \<and> one_char_operator (CHR ''@'') = None
   \<and> munch_token ''a @ #b'' 2 = \<lparr>token_type = TT_Error, tok_first = 2, tok_last = 5\<rparr>
   \<and> tok_last (munch_token ''a @ #b'' 2) \<le> length ''a @ #b''
   \<and> 3 < length ''a @ #b'' \<and> isspace (''a @ #b'' ! 3) \<and> \<not> starts_token (drop 3 ''a @ #b'')
   \<and> CHR ''!'' \<notin> set '' #b''
   \<and> tok_last (munch_token ''a @ #b'' 2) = 2 + spec_error_end (CHR ''@'' # '' #b'')"
proof -
  let ?s = "''a @ #b''"
  have h1: "drop 2 ?s = CHR ''@'' # '' #b''" by simp
  have h2: "\<not> isalpha (CHR ''@'')" by (simp add: isalpha_def)
  have h3: "\<not> isdigit (CHR ''@'')" by (simp add: isdigit_def)
  have h4: "two_char_operator (CHR ''@'' # '' #b'') = None" by (simp add: two_char_operator_def)
  have h5: "one_char_operator (CHR ''@'') = None" by (simp add: one_char_operator_def)
  note t = error_token_extent [OF h1 h2 h3 h4 h5]
  from t have a: "tok_last (munch_token ?s 2) \<le> length ?s" by blast
  from t have b: "\<forall>k. k < length ?s \<and> isspace (?s ! k) \<longrightarrow> \<not> starts_token (drop k ?s)"
    by blast
  have c: "munch_token ?s 2 = \<lparr>token_type = TT_Error, tok_first = 2, tok_last = 5\<rparr>"
    by code_simp
  have d: "3 < length ?s \<and> isspace (?s ! 3)" by (simp add: isspace_def)
  with b have e: "\<not> starts_token (drop 3 ?s)" by blast
  have f: "CHR ''!'' \<notin> set '' #b''" by simp
  with t have g: "tok_last (munch_token ?s 2) = 2 + spec_error_end (CHR ''@'' # '' #b'')"
    by blast
  from h1 h2 h3 h4 h5 a c d e f g show ?thesis by blast
qed

text \<open>
  The claim as the specification words it fails where a \<^verbatim>\<open>!\<close> without \<^verbatim>\<open>=\<close> follows: \<^verbatim>\<open>!\<close> is
  the first byte of \<^verbatim>\<open>!=\<close>, so in \<^verbatim>\<open>@!x\<close> the words end the lexeme after \<^verbatim>\<open>@\<close>, and
  \<^verbatim>\<open>munch_token\<close> returns the lexeme \<^verbatim>\<open>@!\<close>.
\<close>

theorem error_token_lone_bang:
  "operator_lead_byte (CHR ''!'')
   \<and> spec_error_end ''@!x'' = 1
   \<and> munch_token ''@!x'' 0 = \<lparr>token_type = TT_Error, tok_first = 0, tok_last = 2\<rparr>
   \<and> tok_last (munch_token ''@!x'' 0) \<noteq> 0 + spec_error_end ''@!x''"
  by (intro conjI) code_simp+


subsection \<open>The earlier revision of \<^verbatim>\<open>lexer.cpp\<close>, compared\<close>

text \<open>
  Where the two revisions part.  In the earlier one a two-character operator is found
  only at the very end of the buffer, and anywhere else \<^verbatim>\<open>!=\<close> is an Error token and \<^verbatim>\<open>=\<close>;
  an Error lexeme stops at a space and runs over a semicolon; a line comment without a
  newline leaves no token.  The later revision gives, on the same buffers, what the
  theorems above state.
\<close>

lemma lex_v1_digraph:
  "(lex_v1 ''a != b''
      = Some [\<lparr>token_type = TT_Id, tok_first = 0, tok_last = 1\<rparr>,
              \<lparr>token_type = TT_Error, tok_first = 2, tok_last = 3\<rparr>,
              \<lparr>token_type = TT_Gets, tok_first = 3, tok_last = 4\<rparr>,
              \<lparr>token_type = TT_Id, tok_first = 5, tok_last = 6\<rparr>])
   \<and> (lex_v1 ''a !=''
      = Some [\<lparr>token_type = TT_Id, tok_first = 0, tok_last = 1\<rparr>,
              \<lparr>token_type = TT_NotEq, tok_first = 2, tok_last = 4\<rparr>])
   \<and> (lex ''a != b''
      = Some [\<lparr>token_type = TT_Id, tok_first = 0, tok_last = 1\<rparr>,
              \<lparr>token_type = TT_NotEq, tok_first = 2, tok_last = 4\<rparr>,
              \<lparr>token_type = TT_Id, tok_first = 5, tok_last = 6\<rparr>])"
  by (intro conjI) code_simp+

lemma lex_v1_error_extent:
  "(munch_token_v1 ''@ x'' 0 = \<lparr>token_type = TT_Error, tok_first = 0, tok_last = 1\<rparr>)
   \<and> (munch_token_v1 ''@;x'' 0 = \<lparr>token_type = TT_Error, tok_first = 0, tok_last = 2\<rparr>)
   \<and> (munch_token ''@ x'' 0 = \<lparr>token_type = TT_Error, tok_first = 0, tok_last = 2\<rparr>)
   \<and> (munch_token ''@;x'' 0 = \<lparr>token_type = TT_Error, tok_first = 0, tok_last = 1\<rparr>)"
  by (intro conjI) code_simp+

lemma lex_v1_line_comment:
  "(lex_v1 ''x // c'' = Some [\<lparr>token_type = TT_Id, tok_first = 0, tok_last = 1\<rparr>])
   \<and> (lex ''x // c''
      = Some [\<lparr>token_type = TT_Id, tok_first = 0, tok_last = 1\<rparr>,
              \<lparr>token_type = TT_Error, tok_first = 2, tok_last = 6\<rparr>])"
  by (intro conjI) code_simp+

section \<open>Properties of the token reader\<close>

lemma tindex_make_token: "tindex (make_token str_tok i) = i"
  by (simp add: make_token_def split: option.splits)

lemma tokenize_parts_lower: "t \<in> set (tokenize_parts parts i) \<Longrightarrow> i \<le> tindex t"
proof (induction parts arbitrary: i)
  case Nil
  then show ?case by simp
next
  case (Cons str_tok rest)
  then show ?case
    by (fastforce simp: tindex_make_token split: if_splits dest: Cons.IH)
qed

lemma tokenize_parts_increasing: "sorted_wrt (<) (map tindex (tokenize_parts parts i))"
proof (induction parts arbitrary: i)
  case Nil
  show ?case by simp
next
  case (Cons str_tok rest)
  have "\<forall>t \<in> set (tokenize_parts rest (Suc i)). i < tindex t"
    using tokenize_parts_lower [of _ rest "Suc i"] by fastforce
  with Cons.IH [of "Suc i"] show ?case by (simp add: tindex_make_token)
qed

lemma tokenize_parts_contiguous:
  "[] \<notin> set parts \<Longrightarrow> map tindex (tokenize_parts parts i) = [i ..< i + length parts]"
proof (induction parts arbitrary: i)
  case Nil
  show ?case by simp
next
  case (Cons str_tok rest)
  from Cons.prems have ne: "str_tok \<noteq> []" and r: "[] \<notin> set rest" by auto
  note ih = Cons.IH [OF r, of "Suc i"]
  have u: "[i ..< i + length (str_tok # rest)] = i # [Suc i ..< Suc i + length rest]"
    by (simp add: upt_conv_Cons del: upt_Suc)
  have "map tindex (tokenize_parts (str_tok # rest) i)
        = i # map tindex (tokenize_parts rest (Suc i))"
    using ne by (simp add: tindex_make_token)
  with ih u show ?case by simp
qed

lemma tokenize_input_increasing: "sorted_wrt (<) (map tindex (tokenize_input line))"
  unfolding tokenize_input_def by (rule tokenize_parts_increasing)

lemma tokenize_input_contiguous:
  assumes "[] \<notin> set (split line (CHR '' ''))"
  shows "map tindex (tokenize_input line) = [0 ..< length (tokenize_input line)]"
proof -
  from tokenize_parts_contiguous [OF assms, of 0]
  have e: "map tindex (tokenize_input line) = [0 ..< length (split line (CHR '' ''))]"
    by (simp add: tokenize_input_def)
  then have "length (map tindex (tokenize_input line)) = length [0 ..< length (split line (CHR '' ''))]"
    by (rule arg_cong)
  then have "length (tokenize_input line) = length (split line (CHR '' ''))" by simp
  with e show ?thesis by simp
qed

text \<open>
  Claim C8.  The claim is that the position carried by each token is its ordinal in the
  stream: \<open>0, 1, 2, \<dots>\<close> without gaps.  \<^verbatim>\<open>tokenize_input\<close> stores the loop counter over
  the space-separated parts of the line, and skips empty parts without storing anything,
  so a token after an empty part carries a position larger than its ordinal.  The lexer's
  own output reaches this: for the source text \<^verbatim>\<open>@  x\<close> the printed line holds an Error
  lexeme with two spaces, and the three tokens read back from it carry 0, 2, 3.  So does
  a line with a doubled separator.  (Lemmas \<open>tokenize_input_increasing\<close> and
  \<open>tokenize_input_contiguous\<close> above: the positions always increase strictly, and they
  are \<open>0, 1, 2, \<dots>\<close> when no part is empty.)
\<close>

theorem tokenize_input_position_gap:
  "map_option (print_tokens ''@  x'') (lex ''@  x'') = Some ''Error(@  ) Id(x)''
   \<and> tokenize_input ''Error(@  ) Id(x)''
       = [\<lparr>ttype = ''Error'', tvalue = [], tindex = 0\<rparr>,
          \<lparr>ttype = '')'', tvalue = [], tindex = 2\<rparr>,
          \<lparr>ttype = ''Id'', tvalue = ''x'', tindex = 3\<rparr>]
   \<and> map tindex (tokenize_input ''Id(a)  Id(b)'') = [0, 2]"
proof (intro conjI)
  show "map_option (print_tokens ''@  x'') (lex ''@  x'') = Some ''Error(@  ) Id(x)''"
    by code_simp
  show "tokenize_input ''Error(@  ) Id(x)''
       = [\<lparr>ttype = ''Error'', tvalue = [], tindex = 0\<rparr>,
          \<lparr>ttype = '')'', tvalue = [], tindex = 2\<rparr>,
          \<lparr>ttype = ''Id'', tvalue = ''x'', tindex = 3\<rparr>]"
    by code_simp
  show "map tindex (tokenize_input ''Id(a)  Id(b)'') = [0, 2]"
    by code_simp
qed

section \<open>Properties of the parser\<close>

subsection \<open>The equations of the parsing methods\<close>

lemma parse_type_0: "parse_type 0 ts pos = Inl OutOfFuel"
  by (simp add: parse_type_def)

lemma parse_type_unfold:
  "parse_type (Suc n) = parse_type_body (parse_type n) (parse_funtype n)"
  unfolding parse_type_def parse_funtype_def parse_type_list_def by (simp add: Let_def)

lemma parse_type_Suc:
  "parse_type (Suc n) ts pos =
     (if check ts pos ''Int'' then
        bind_res (advance ts pos) (\<lambda>(tok, p1). Inr (IntType, p1))
      else if check ts pos ''Id'' then
        bind_res (advance ts pos) (\<lambda>(id_token, p1). Inr (StructType (tvalue id_token), p1))
      else if check ts pos ''Ampersand'' then
        bind_res (advance ts pos) (\<lambda>(tok, p1).
        bind_res (parse_type n ts p1) (\<lambda>(inner_type, p2). Inr (PtrType inner_type, p2)))
      else if check ts pos ''OpenBracket'' then
        bind_res (advance ts pos) (\<lambda>(tok, p1).
        bind_res (parse_type n ts p1) (\<lambda>(inner_type, p2).
        bind_res (consume ts p2 ''CloseBracket'' (unexpected_token ts p2)) (\<lambda>(tok, p3).
        Inr (ArrayType inner_type, p3))))
      else parse_funtype n ts pos)"
  by (simp add: parse_type_unfold parse_type_body_def)

lemma parse_funtype_0: "parse_funtype 0 ts pos = Inl OutOfFuel"
  by (simp add: parse_funtype_def)

lemma parse_funtype_unfold:
  "parse_funtype (Suc n) = parse_funtype_body (parse_type n) (parse_type_list n)"
  unfolding parse_type_def parse_funtype_def parse_type_list_def by (simp add: Let_def)

lemma parse_funtype_Suc:
  "parse_funtype (Suc n) ts pos =
     bind_res (consume ts pos ''OpenParen'' (unexpected_token ts pos)) (\<lambda>(tok, p1).
     bind_res (if \<not> check ts p1 ''CloseParen'' then parse_type_list n ts p1 []
               else Inr ([], p1)) (\<lambda>(param_types, p2).
     bind_res (consume ts p2 ''CloseParen'' (unexpected_token ts p2)) (\<lambda>(tok, p3).
     bind_res (consume ts p3 ''Arrow'' (unexpected_token ts p3)) (\<lambda>(tok, p4).
     bind_res (parse_type n ts p4) (\<lambda>(return_type, p5).
     Inr (FnType param_types return_type, p5))))))"
  by (simp add: parse_funtype_unfold parse_funtype_body_def)

lemma parse_type_list_0: "parse_type_list 0 ts pos param_types = Inl OutOfFuel"
  by (simp add: parse_type_list_def)

lemma parse_type_list_unfold:
  "parse_type_list (Suc n) = parse_type_list_body (parse_type n) (parse_type_list n)"
  unfolding parse_type_def parse_funtype_def parse_type_list_def by (simp add: Let_def)

lemma parse_type_list_Suc:
  "parse_type_list (Suc n) ts pos param_types =
     bind_res (parse_type n ts pos) (\<lambda>(ty, p1).
       if check ts p1 ''Comma'' then
         bind_res (advance ts p1) (\<lambda>(tok, p2). parse_type_list n ts p2 (param_types @ [ty]))
       else Inr (param_types @ [ty], p1))"
  by (simp add: parse_type_list_unfold parse_type_list_body_def)

lemmas [code] =
  parse_type_0 parse_type_Suc
  parse_funtype_0 parse_funtype_Suc
  parse_type_list_0 parse_type_list_Suc

lemma parse_exp_0: "parse_exp 0 ts pos = Inl OutOfFuel"
  by (simp add: parse_exp_def)

lemma parse_exp_unfold:
  "parse_exp (Suc n) = parse_exp_body (parse_exp_loop n) (parse_exp1 n)"
  unfolding parse_exp_def parse_exp_loop_def parse_exp1_def parse_exp2_def parse_exp2_loop_def parse_exp3_def parse_exp3_loop_def parse_exp4_def parse_exp4_loop_def parse_exp5_def parse_exp6_def parse_exp6_loop_def parse_args_def parse_exp7_def by (simp add: Let_def)

lemma parse_exp_Suc:
  "parse_exp (Suc n) ts pos =
     bind_res (parse_exp1 n ts pos) (\<lambda>(left, p1). parse_exp_loop n left ts p1)"
  by (simp add: parse_exp_unfold parse_exp_body_def)

lemma parse_exp_loop_0: "parse_exp_loop 0 left ts pos = Inl OutOfFuel"
  by (simp add: parse_exp_loop_def)

lemma parse_exp_loop_unfold:
  "parse_exp_loop (Suc n) = parse_exp_loop_body (parse_exp n) (parse_exp_loop n) (parse_exp1 n)"
  unfolding parse_exp_def parse_exp_loop_def parse_exp1_def parse_exp2_def parse_exp2_loop_def parse_exp3_def parse_exp3_loop_def parse_exp4_def parse_exp4_loop_def parse_exp5_def parse_exp6_def parse_exp6_loop_def parse_args_def parse_exp7_def by (simp add: Let_def)

lemma parse_exp_loop_Suc:
  "parse_exp_loop (Suc n) left ts pos =
     (if check ts pos ''QuestionMark'' then
        bind_res (advance ts pos) (\<lambda>(tok, p1).
        bind_res (parse_exp n ts p1) (\<lambda>(true_exp, p2).
        bind_res (consume ts p2 ''Colon'' (unexpected_token ts p2)) (\<lambda>(tok, p3).
        bind_res (parse_exp1 n ts p3) (\<lambda>(false_exp, p4).
        parse_exp_loop n (Select left true_exp false_exp) ts p4))))
      else Inr (left, pos))"
  by (simp add: parse_exp_loop_unfold parse_exp_loop_body_def)

lemma parse_exp1_0: "parse_exp1 0 ts pos = Inl OutOfFuel"
  by (simp add: parse_exp1_def)

lemma parse_exp1_unfold:
  "parse_exp1 (Suc n) = parse_exp1_body (parse_exp1 n) (parse_exp2 n)"
  unfolding parse_exp_def parse_exp_loop_def parse_exp1_def parse_exp2_def parse_exp2_loop_def parse_exp3_def parse_exp3_loop_def parse_exp4_def parse_exp4_loop_def parse_exp5_def parse_exp6_def parse_exp6_loop_def parse_args_def parse_exp7_def by (simp add: Let_def)

lemma parse_exp1_Suc:
  "parse_exp1 (Suc n) ts pos =
     bind_res (parse_exp2 n ts pos) (\<lambda>(left, p1).
       if check_any ts p1 [''And'', ''Or''] then
         bind_res (advance ts p1) (\<lambda>(op_token, p2).
         bind_res (parse_exp1 n ts p2) (\<lambda>(right, p3).
         Inr (BinOp (if ttype op_token = ''And'' then And else Or) left right, p3)))
       else Inr (left, p1))"
  by (simp add: parse_exp1_unfold parse_exp1_body_def)

lemma parse_exp2_0: "parse_exp2 0 ts pos = Inl OutOfFuel"
  by (simp add: parse_exp2_def)

lemma parse_exp2_unfold:
  "parse_exp2 (Suc n) = parse_exp2_body (parse_exp2_loop n) (parse_exp3 n)"
  unfolding parse_exp_def parse_exp_loop_def parse_exp1_def parse_exp2_def parse_exp2_loop_def parse_exp3_def parse_exp3_loop_def parse_exp4_def parse_exp4_loop_def parse_exp5_def parse_exp6_def parse_exp6_loop_def parse_args_def parse_exp7_def by (simp add: Let_def)

lemma parse_exp2_Suc:
  "parse_exp2 (Suc n) ts pos =
     bind_res (parse_exp3 n ts pos) (\<lambda>(left, p1). parse_exp2_loop n left ts p1)"
  by (simp add: parse_exp2_unfold parse_exp2_body_def)

lemma parse_exp2_loop_0: "parse_exp2_loop 0 left ts pos = Inl OutOfFuel"
  by (simp add: parse_exp2_loop_def)

lemma parse_exp2_loop_unfold:
  "parse_exp2_loop (Suc n) = parse_exp2_loop_body (parse_exp2_loop n) (parse_exp3 n)"
  unfolding parse_exp_def parse_exp_loop_def parse_exp1_def parse_exp2_def parse_exp2_loop_def parse_exp3_def parse_exp3_loop_def parse_exp4_def parse_exp4_loop_def parse_exp5_def parse_exp6_def parse_exp6_loop_def parse_args_def parse_exp7_def by (simp add: Let_def)

lemma parse_exp2_loop_Suc:
  "parse_exp2_loop (Suc n) left ts pos =
     (if check_any ts pos [''Equal'', ''NotEq'', ''Lt'', ''Lte'', ''Gt'', ''Gte''] then
        bind_res (advance ts pos) (\<lambda>(op_token, p1).
        bind_res (parse_exp3 n ts p1) (\<lambda>(right, p2).
        bind_res (exp2_op op_token) (\<lambda>op.
        parse_exp2_loop n (BinOp op left right) ts p2)))
      else Inr (left, pos))"
  by (simp add: parse_exp2_loop_unfold parse_exp2_loop_body_def)

lemma parse_exp3_0: "parse_exp3 0 ts pos = Inl OutOfFuel"
  by (simp add: parse_exp3_def)

lemma parse_exp3_unfold:
  "parse_exp3 (Suc n) = parse_exp3_body (parse_exp3_loop n) (parse_exp4 n)"
  unfolding parse_exp_def parse_exp_loop_def parse_exp1_def parse_exp2_def parse_exp2_loop_def parse_exp3_def parse_exp3_loop_def parse_exp4_def parse_exp4_loop_def parse_exp5_def parse_exp6_def parse_exp6_loop_def parse_args_def parse_exp7_def by (simp add: Let_def)

lemma parse_exp3_Suc:
  "parse_exp3 (Suc n) ts pos =
     bind_res (parse_exp4 n ts pos) (\<lambda>(left, p1). parse_exp3_loop n left ts p1)"
  by (simp add: parse_exp3_unfold parse_exp3_body_def)

lemma parse_exp3_loop_0: "parse_exp3_loop 0 left ts pos = Inl OutOfFuel"
  by (simp add: parse_exp3_loop_def)

lemma parse_exp3_loop_unfold:
  "parse_exp3_loop (Suc n) = parse_exp3_loop_body (parse_exp3_loop n) (parse_exp4 n)"
  unfolding parse_exp_def parse_exp_loop_def parse_exp1_def parse_exp2_def parse_exp2_loop_def parse_exp3_def parse_exp3_loop_def parse_exp4_def parse_exp4_loop_def parse_exp5_def parse_exp6_def parse_exp6_loop_def parse_args_def parse_exp7_def by (simp add: Let_def)

lemma parse_exp3_loop_Suc:
  "parse_exp3_loop (Suc n) left ts pos =
     (if check_any ts pos [''Plus'', ''Dash''] then
        bind_res (advance ts pos) (\<lambda>(op_token, p1).
        bind_res (parse_exp4 n ts p1) (\<lambda>(right, p2).
        parse_exp3_loop n (BinOp (if ttype op_token = ''Plus'' then Add else Sub) left right)
          ts p2))
      else Inr (left, pos))"
  by (simp add: parse_exp3_loop_unfold parse_exp3_loop_body_def)

lemma parse_exp4_0: "parse_exp4 0 ts pos = Inl OutOfFuel"
  by (simp add: parse_exp4_def)

lemma parse_exp4_unfold:
  "parse_exp4 (Suc n) = parse_exp4_body (parse_exp4_loop n) (parse_exp5 n)"
  unfolding parse_exp_def parse_exp_loop_def parse_exp1_def parse_exp2_def parse_exp2_loop_def parse_exp3_def parse_exp3_loop_def parse_exp4_def parse_exp4_loop_def parse_exp5_def parse_exp6_def parse_exp6_loop_def parse_args_def parse_exp7_def by (simp add: Let_def)

lemma parse_exp4_Suc:
  "parse_exp4 (Suc n) ts pos =
     bind_res (parse_exp5 n ts pos) (\<lambda>(left, p1). parse_exp4_loop n left ts p1)"
  by (simp add: parse_exp4_unfold parse_exp4_body_def)

lemma parse_exp4_loop_0: "parse_exp4_loop 0 left ts pos = Inl OutOfFuel"
  by (simp add: parse_exp4_loop_def)

lemma parse_exp4_loop_unfold:
  "parse_exp4_loop (Suc n) = parse_exp4_loop_body (parse_exp4_loop n) (parse_exp5 n)"
  unfolding parse_exp_def parse_exp_loop_def parse_exp1_def parse_exp2_def parse_exp2_loop_def parse_exp3_def parse_exp3_loop_def parse_exp4_def parse_exp4_loop_def parse_exp5_def parse_exp6_def parse_exp6_loop_def parse_args_def parse_exp7_def by (simp add: Let_def)

lemma parse_exp4_loop_Suc:
  "parse_exp4_loop (Suc n) left ts pos =
     (if check_any ts pos [''Star'', ''Slash''] then
        bind_res (advance ts pos) (\<lambda>(op_token, p1).
        bind_res (parse_exp5 n ts p1) (\<lambda>(right, p2).
        parse_exp4_loop n (BinOp (if ttype op_token = ''Star'' then Mul else Div) left right)
          ts p2))
      else Inr (left, pos))"
  by (simp add: parse_exp4_loop_unfold parse_exp4_loop_body_def)

lemma parse_exp5_0: "parse_exp5 0 ts pos = Inl OutOfFuel"
  by (simp add: parse_exp5_def)

lemma parse_exp5_unfold:
  "parse_exp5 (Suc n) = parse_exp5_body (parse_exp5 n) (parse_exp6 n)"
  unfolding parse_exp_def parse_exp_loop_def parse_exp1_def parse_exp2_def parse_exp2_loop_def parse_exp3_def parse_exp3_loop_def parse_exp4_def parse_exp4_loop_def parse_exp5_def parse_exp6_def parse_exp6_loop_def parse_args_def parse_exp7_def by (simp add: Let_def)

lemma parse_exp5_Suc:
  "parse_exp5 (Suc n) ts pos =
     (if check_any ts pos [''Dash'', ''Not''] then
        bind_res (advance ts pos) (\<lambda>(op_token, p1).
        bind_res (parse_exp5 n ts p1) (\<lambda>(exp, p2).
        Inr (UnOp (if ttype op_token = ''Dash'' then Neg else NotOp) exp, p2)))
      else parse_exp6 n ts pos)"
  by (simp add: parse_exp5_unfold parse_exp5_body_def)

lemma parse_exp6_0: "parse_exp6 0 ts pos = Inl OutOfFuel"
  by (simp add: parse_exp6_def)

lemma parse_exp6_unfold:
  "parse_exp6 (Suc n) = parse_exp6_body (parse_exp6_loop n) (parse_exp7 n)"
  unfolding parse_exp_def parse_exp_loop_def parse_exp1_def parse_exp2_def parse_exp2_loop_def parse_exp3_def parse_exp3_loop_def parse_exp4_def parse_exp4_loop_def parse_exp5_def parse_exp6_def parse_exp6_loop_def parse_args_def parse_exp7_def by (simp add: Let_def)

lemma parse_exp6_Suc:
  "parse_exp6 (Suc n) ts pos =
     bind_res (parse_exp7 n ts pos) (\<lambda>(exp, p1). parse_exp6_loop n exp ts p1)"
  by (simp add: parse_exp6_unfold parse_exp6_body_def)

lemma parse_exp6_loop_0: "parse_exp6_loop 0 exp ts pos = Inl OutOfFuel"
  by (simp add: parse_exp6_loop_def)

lemma parse_exp6_loop_unfold:
  "parse_exp6_loop (Suc n) = parse_exp6_loop_body (parse_exp n) (parse_exp6_loop n) (parse_args n)"
  unfolding parse_exp_def parse_exp_loop_def parse_exp1_def parse_exp2_def parse_exp2_loop_def parse_exp3_def parse_exp3_loop_def parse_exp4_def parse_exp4_loop_def parse_exp5_def parse_exp6_def parse_exp6_loop_def parse_args_def parse_exp7_def by (simp add: Let_def)

lemma parse_exp6_loop_Suc:
  "parse_exp6_loop (Suc n) exp ts pos =
     (if check ts pos ''OpenBracket'' then
        bind_res (advance ts pos) (\<lambda>(tok, p1).
        bind_res (parse_exp n ts p1) (\<lambda>(index, p2).
        bind_res (consume ts p2 ''CloseBracket'' (unexpected_token ts p2)) (\<lambda>(tok, p3).
        parse_exp6_loop n (Val (ArrayAccess exp index)) ts p3)))
      else if check ts pos ''Dot'' then
        bind_res (advance ts pos) (\<lambda>(tok, p1).
          if check ts p1 ''Id'' then
            bind_res (advance ts p1) (\<lambda>(field_token, p2).
            parse_exp6_loop n (Val (FieldAccess exp (tvalue field_token))) ts p2)
          else if check ts p1 ''Star'' then
            bind_res (advance ts p1) (\<lambda>(tok, p2).
            parse_exp6_loop n (Val (Deref exp)) ts p2)
          else bind_res (unexpected_token ts p1) error)
      else if check ts pos ''OpenParen'' then
        bind_res (advance ts pos) (\<lambda>(tok, p1).
        bind_res (if \<not> check ts p1 ''CloseParen'' then parse_args n ts p1 []
                  else Inr ([], p1)) (\<lambda>(args, p2).
        bind_res (consume ts p2 ''CloseParen'' (unexpected_token ts p2)) (\<lambda>(tok, p3).
        parse_exp6_loop n (CallExp (FunCall exp args)) ts p3)))
      else Inr (exp, pos))"
  by (simp add: parse_exp6_loop_unfold parse_exp6_loop_body_def)

lemma parse_args_0: "parse_args 0 ts pos args = Inl OutOfFuel"
  by (simp add: parse_args_def)

lemma parse_args_unfold:
  "parse_args (Suc n) = parse_args_body (parse_exp n) (parse_args n)"
  unfolding parse_exp_def parse_exp_loop_def parse_exp1_def parse_exp2_def parse_exp2_loop_def parse_exp3_def parse_exp3_loop_def parse_exp4_def parse_exp4_loop_def parse_exp5_def parse_exp6_def parse_exp6_loop_def parse_args_def parse_exp7_def by (simp add: Let_def)

lemma parse_args_Suc:
  "parse_args (Suc n) ts pos args =
     bind_res (parse_exp n ts pos) (\<lambda>(arg, p1).
       if check ts p1 ''Comma'' then
         bind_res (advance ts p1) (\<lambda>(tok, p2). parse_args n ts p2 (args @ [arg]))
       else Inr (args @ [arg], p1))"
  by (simp add: parse_args_unfold parse_args_body_def)

lemma parse_exp7_0: "parse_exp7 0 ts pos = Inl OutOfFuel"
  by (simp add: parse_exp7_def)

lemma parse_exp7_unfold:
  "parse_exp7 (Suc n) = parse_exp7_body n (parse_exp n)"
  unfolding parse_exp_def parse_exp_loop_def parse_exp1_def parse_exp2_def parse_exp2_loop_def parse_exp3_def parse_exp3_loop_def parse_exp4_def parse_exp4_loop_def parse_exp5_def parse_exp6_def parse_exp6_loop_def parse_args_def parse_exp7_def by (simp add: Let_def)

lemma parse_exp7_Suc:
  "parse_exp7 (Suc n) ts pos =
     (if check ts pos ''Id'' then
        bind_res (advance ts pos) (\<lambda>(id_token, p1). Inr (Val (IdPlace (tvalue id_token)), p1))
      else if check ts pos ''Num'' then
        bind_res (advance ts pos) (\<lambda>(num_token, p1).
        bind_res (num_literal num_token) (\<lambda>num. Inr (num, p1)))
      else if check ts pos ''Nil'' then
        bind_res (advance ts pos) (\<lambda>(tok, p1). Inr (NilExp, p1))
      else if check ts pos ''New'' then
        bind_res (advance ts pos) (\<lambda>(tok, p1).
        bind_res (parse_type n ts p1) (\<lambda>(ty, p2). Inr (NewSingle ty, p2)))
      else if check ts pos ''OpenBracket'' then
        bind_res (advance ts pos) (\<lambda>(tok, p1).
        bind_res (parse_type n ts p1) (\<lambda>(ty, p2).
        bind_res (consume ts p2 ''Semicolon'' (unexpected_token ts p2)) (\<lambda>(tok, p3).
        bind_res (parse_exp n ts p3) (\<lambda>(size_exp, p4).
        bind_res (consume ts p4 ''CloseBracket'' (unexpected_token ts p4)) (\<lambda>(tok, p5).
        Inr (NewArray ty size_exp, p5))))))
      else if check ts pos ''OpenParen'' then
        bind_res (advance ts pos) (\<lambda>(tok, p1).
        bind_res (parse_exp n ts p1) (\<lambda>(exp, p2).
        bind_res (consume ts p2 ''CloseParen'' (unexpected_token ts p2)) (\<lambda>(tok, p3).
        Inr (exp, p3))))
      else bind_res (unexpected_token ts pos) error)"
  by (simp add: parse_exp7_unfold parse_exp7_body_def)

lemmas [code] =
  parse_exp_0 parse_exp_Suc
  parse_exp_loop_0 parse_exp_loop_Suc
  parse_exp1_0 parse_exp1_Suc
  parse_exp2_0 parse_exp2_Suc
  parse_exp2_loop_0 parse_exp2_loop_Suc
  parse_exp3_0 parse_exp3_Suc
  parse_exp3_loop_0 parse_exp3_loop_Suc
  parse_exp4_0 parse_exp4_Suc
  parse_exp4_loop_0 parse_exp4_loop_Suc
  parse_exp5_0 parse_exp5_Suc
  parse_exp6_0 parse_exp6_Suc
  parse_exp6_loop_0 parse_exp6_loop_Suc
  parse_args_0 parse_args_Suc
  parse_exp7_0 parse_exp7_Suc

lemma parse_stmt_0: "parse_stmt 0 ts pos = Inl OutOfFuel"
  by (simp add: parse_stmt_def)

lemma parse_stmt_unfold:
  "parse_stmt (Suc n) = parse_stmt_body n (parse_if_stmt n) (parse_while_stmt n) (parse_return_stmt n)"
  unfolding parse_stmt_def parse_if_stmt_def parse_block_def parse_block_loop_def parse_while_stmt_def parse_return_stmt_def by (simp add: Let_def)

lemma parse_stmt_Suc:
  "parse_stmt (Suc n) ts pos =
     (if check ts pos ''If'' then parse_if_stmt n ts pos
      else if check ts pos ''While'' then parse_while_stmt n ts pos
      else if check ts pos ''Return'' then parse_return_stmt n ts pos
      else if check ts pos ''Break'' then
        bind_res (advance ts pos) (\<lambda>(tok, p1).
        bind_res (consume ts p1 ''Semicolon'' (unexpected_token ts p1)) (\<lambda>(tok, p2).
        Inr (Break, p2)))
      else if check ts pos ''Continue'' then
        bind_res (advance ts pos) (\<lambda>(tok, p1).
        bind_res (consume ts p1 ''Semicolon'' (unexpected_token ts p1)) (\<lambda>(tok, p2).
        Inr (Continue, p2)))
      else
        bind_res (peek ts pos) (\<lambda>start_token.
        bind_res (parse_exp n ts pos) (\<lambda>(left_exp, p1).
          if check ts p1 ''Gets'' then
            bind_res (advance ts p1) (\<lambda>(tok, p2).
            bind_res (parse_exp n ts p2) (\<lambda>(right_exp, p3).
            bind_res (consume ts p3 ''Semicolon'' (unexpected_token ts p3)) (\<lambda>(tok, p4).
              case left_exp of
                Val place \<Rightarrow> Inr (Assign place right_exp, p4)
              | _ \<Rightarrow> error (''left-hand side of assignment must be a place, starting at token ''
                             @ to_string (tindex start_token)))))
          else
            bind_res (consume ts p1 ''Semicolon'' (unexpected_token ts p1)) (\<lambda>(tok, p2).
              case left_exp of
                CallExp fc \<Rightarrow> Inr (CallStmt fc, p2)
              | _ \<Rightarrow> error (''standalone expressions must be function calls, starting at token ''
                             @ to_string (tindex start_token))))))"
  by (simp add: parse_stmt_unfold parse_stmt_body_def)

lemma parse_if_stmt_0: "parse_if_stmt 0 ts pos = Inl OutOfFuel"
  by (simp add: parse_if_stmt_def)

lemma parse_if_stmt_unfold:
  "parse_if_stmt (Suc n) = parse_if_stmt_body n (parse_block n)"
  unfolding parse_stmt_def parse_if_stmt_def parse_block_def parse_block_loop_def parse_while_stmt_def parse_return_stmt_def by (simp add: Let_def)

lemma parse_if_stmt_Suc:
  "parse_if_stmt (Suc n) ts pos =
     bind_res (consume ts pos ''If'' (unexpected_token ts pos)) (\<lambda>(tok, p1).
     bind_res (parse_exp n ts p1) (\<lambda>(guard, p2).
     bind_res (parse_block n ts p2) (\<lambda>(tt, p3).
       if check ts p3 ''Else'' then
         bind_res (advance ts p3) (\<lambda>(tok, p4).
         bind_res (parse_block n ts p4) (\<lambda>(ff, p5). Inr (IfStmt guard tt ff, p5)))
       else Inr (IfStmt guard tt [], p3))))"
  by (simp add: parse_if_stmt_unfold parse_if_stmt_body_def)

lemma parse_block_0: "parse_block 0 ts pos = Inl OutOfFuel"
  by (simp add: parse_block_def)

lemma parse_block_unfold:
  "parse_block (Suc n) = parse_block_body (parse_block_loop n)"
  unfolding parse_stmt_def parse_if_stmt_def parse_block_def parse_block_loop_def parse_while_stmt_def parse_return_stmt_def by (simp add: Let_def)

lemma parse_block_Suc:
  "parse_block (Suc n) ts pos =
     bind_res (consume ts pos ''OpenBrace'' (unexpected_token ts pos)) (\<lambda>(tok, p1).
     bind_res (parse_block_loop n ts p1 []) (\<lambda>(stmts, p2).
     bind_res (consume ts p2 ''CloseBrace'' (unexpected_token ts p2)) (\<lambda>(tok, p3).
     Inr (stmts, p3))))"
  by (simp add: parse_block_unfold parse_block_body_def)

lemma parse_block_loop_0: "parse_block_loop 0 ts pos stmts = Inl OutOfFuel"
  by (simp add: parse_block_loop_def)

lemma parse_block_loop_unfold:
  "parse_block_loop (Suc n) = parse_block_loop_body (parse_stmt n) (parse_block_loop n)"
  unfolding parse_stmt_def parse_if_stmt_def parse_block_def parse_block_loop_def parse_while_stmt_def parse_return_stmt_def by (simp add: Let_def)

lemma parse_block_loop_Suc:
  "parse_block_loop (Suc n) ts pos stmts =
     (if \<not> check ts pos ''CloseBrace'' \<and> \<not> is_at_end ts pos then
        bind_res (parse_stmt n ts pos) (\<lambda>(stmt, p1). parse_block_loop n ts p1 (stmts @ [stmt]))
      else Inr (stmts, pos))"
  by (simp add: parse_block_loop_unfold parse_block_loop_body_def)

lemma parse_while_stmt_0: "parse_while_stmt 0 ts pos = Inl OutOfFuel"
  by (simp add: parse_while_stmt_def)

lemma parse_while_stmt_unfold:
  "parse_while_stmt (Suc n) = parse_while_stmt_body n (parse_block n)"
  unfolding parse_stmt_def parse_if_stmt_def parse_block_def parse_block_loop_def parse_while_stmt_def parse_return_stmt_def by (simp add: Let_def)

lemma parse_while_stmt_Suc:
  "parse_while_stmt (Suc n) ts pos =
     bind_res (consume ts pos ''While'' (unexpected_token ts pos)) (\<lambda>(tok, p1).
     bind_res (parse_exp n ts p1) (\<lambda>(guard, p2).
     bind_res (parse_block n ts p2) (\<lambda>(body, p3). Inr (While guard body, p3))))"
  by (simp add: parse_while_stmt_unfold parse_while_stmt_body_def)

lemma parse_return_stmt_0: "parse_return_stmt 0 ts pos = Inl OutOfFuel"
  by (simp add: parse_return_stmt_def)

lemma parse_return_stmt_unfold:
  "parse_return_stmt (Suc n) = parse_return_stmt_body n"
  unfolding parse_stmt_def parse_if_stmt_def parse_block_def parse_block_loop_def parse_while_stmt_def parse_return_stmt_def by (simp add: Let_def)

lemma parse_return_stmt_Suc:
  "parse_return_stmt (Suc n) ts pos =
     bind_res (consume ts pos ''Return'' (unexpected_token ts pos)) (\<lambda>(tok, p1).
     bind_res (parse_exp n ts p1) (\<lambda>(exp, p2).
     bind_res (consume ts p2 ''Semicolon'' (unexpected_token ts p2)) (\<lambda>(tok, p3).
     Inr (Return exp, p3))))"
  by (simp add: parse_return_stmt_unfold parse_return_stmt_body_def)

lemmas [code] =
  parse_stmt_0 parse_stmt_Suc
  parse_if_stmt_0 parse_if_stmt_Suc
  parse_block_0 parse_block_Suc
  parse_block_loop_0 parse_block_loop_Suc
  parse_while_stmt_0 parse_while_stmt_Suc
  parse_return_stmt_0 parse_return_stmt_Suc

subsection \<open>Helper methods\<close>

lemma bind_res_Inl [simp]: "bind_res (Inl e) f = Inl e"
  by (simp add: bind_res_def)

lemma bind_res_Inr [simp]: "bind_res (Inr x) f = f x"
  by (simp add: bind_res_def)

lemma bind_res_eq_Inr:
  "bind_res m f = Inr y \<longleftrightarrow> (\<exists>x. m = Inr x \<and> f x = Inr y)"
  by (cases m) simp_all

lemma check_not_at_end: "check ts pos ty \<Longrightarrow> pos < length ts \<and> ttype (ts ! pos) = ty"
  by (simp add: check_def is_at_end_def split: if_splits)

lemma check_advance: "check ts pos ty \<Longrightarrow> advance ts pos = Inr (ts ! pos, Suc pos)"
  by (auto simp: check_def is_at_end_def advance_def previous_def split: if_splits)

lemma check_consume:
  "check ts pos ty \<Longrightarrow> consume ts pos ty (unexpected_token ts pos) = Inr (ts ! pos, Suc pos)"
  by (auto simp: check_def is_at_end_def advance_def previous_def consume_def unexpected_token_def
      peek_def split: if_splits)

lemma check_other: "check ts pos ty \<Longrightarrow> ty' \<noteq> ty \<Longrightarrow> \<not> check ts pos ty'"
  by (simp add: check_def split: if_splits)

lemma check_peek: "check ts pos ty \<Longrightarrow> peek ts pos = Inr (ts ! pos)"
  by (simp add: check_def peek_def split: if_splits)

subsection \<open>Numeric literals\<close>

lemma isdigit_of_char: "isdigit c \<longleftrightarrow> 48 \<le> (of_char c :: nat) \<and> (of_char c :: nat) \<le> 57"
  by (simp add: isdigit_def less_eq_char_def)

lemma isdigit_not_space: "isdigit c \<Longrightarrow> \<not> isspace c \<and> c \<noteq> CHR ''-'' \<and> c \<noteq> CHR ''+''"
  by (auto simp: isdigit_of_char isspace_def)

lemma digit_value_bounds: "isdigit c \<Longrightarrow> 0 \<le> digit_value c \<and> digit_value c \<le> 9"
  by (auto simp: isdigit_of_char digit_value_def)

lemma foldl_digits_nonneg:
  "0 \<le> acc \<Longrightarrow> \<forall>c \<in> set ds. isdigit c \<Longrightarrow>
   0 \<le> foldl (\<lambda>acc c. acc * 10 + digit_value c) acc ds"
proof (induction ds arbitrary: acc)
  case Nil
  then show ?case by simp
next
  case (Cons d ds)
  from Cons.prems digit_value_bounds [of d] have "0 \<le> acc * 10 + digit_value d" by simp
  with Cons show ?case by simp
qed

lemma digits_value_nonneg: "\<forall>c \<in> set ds. isdigit c \<Longrightarrow> 0 \<le> digits_value ds"
  unfolding digits_value_def by (rule foldl_digits_nonneg) simp_all

lemma stoll_digits:
  assumes "ds \<noteq> []" and "\<forall>c \<in> set ds. isdigit c"
  shows "stoll ds = (if digits_value ds \<le> 2 ^ 63 - 1 then Inr (digits_value ds)
                     else Inl out_of_range)"
proof -
  from assms obtain d ds' where ds: "ds = d # ds'" by (cases ds) auto
  with assms have d: "isdigit d" by simp
  from isdigit_not_space [OF d] ds have s1: "dropWhile isspace ds = ds" by simp
  from isdigit_not_space [OF d] ds have hd: "hd ds \<noteq> CHR ''-''" "hd ds \<noteq> CHR ''+''" by simp_all
  from assms have tw: "takeWhile isdigit ds = ds" by (simp add: takeWhile_eq_all_conv)
  from digits_value_nonneg [OF assms(2)] have nn: "0 \<le> digits_value ds" .
  then have lo: "- 9223372036854775808 \<le> digits_value ds" by simp
  show ?thesis
    by (simp add: stoll_def Let_def s1 tw hd assms(1) lo not_less)
qed

lemma parse_exp7_Num:
  assumes "check ts pos ''Num''"
  shows "parse_exp7 (Suc n) ts pos
         = bind_res (num_literal (ts ! pos)) (\<lambda>num. Inr (num, Suc pos))"
proof -
  from assms have "\<not> check ts pos ''Id''" by (rule check_other) simp
  with assms check_advance [OF assms] show ?thesis by (simp add: parse_exp7_Suc)
qed

text \<open>
  Claim C7.  A \<^verbatim>\<open>Num\<close> token whose lexeme is a non-empty run of decimal digits (what the
  lexer produces for \<^verbatim>\<open>Num\<close>) is converted by \<^verbatim>\<open>parse_exp7\<close> to the non-negative number
  that the digits denote when that number is at most \<open>2 ^ 63 - 1\<close>, and is rejected with
  the message \<^verbatim>\<open>parse error: invalid i64 number <lexeme> at token <index>\<close> exactly when it
  is larger.  The lexeme 9223372036854775808 is rejected, 9223372036854775807 is accepted.
\<close>

theorem num_token_i64:
  assumes num: "check ts pos ''Num''"
      and ne: "tvalue (ts ! pos) \<noteq> []"
      and digits: "\<forall>c \<in> set (tvalue (ts ! pos)). isdigit c"
  shows "0 \<le> digits_value (tvalue (ts ! pos))
     \<and> (digits_value (tvalue (ts ! pos)) \<le> 2 ^ 63 - 1 \<longrightarrow>
          parse_exp7 (Suc n) ts pos = Inr (Num (digits_value (tvalue (ts ! pos))), Suc pos))
     \<and> (2 ^ 63 - 1 < digits_value (tvalue (ts ! pos)) \<longrightarrow>
          parse_exp7 (Suc n) ts pos
          = Inl (ParseError (''parse error: invalid i64 number '' @ tvalue (ts ! pos)
                             @ '' at token '' @ to_string (tindex (ts ! pos)))))
     \<and> (tvalue (ts ! pos) = ''9223372036854775808'' \<longrightarrow>
          parse_exp7 (Suc n) ts pos
          = Inl (ParseError (''parse error: invalid i64 number 9223372036854775808 at token ''
                             @ to_string (tindex (ts ! pos)))))
     \<and> (tvalue (ts ! pos) = ''9223372036854775807'' \<longrightarrow>
          parse_exp7 (Suc n) ts pos = Inr (Num 9223372036854775807, Suc pos))"
proof -
  let ?v = "tvalue (ts ! pos)"
  note st = stoll_digits [OF ne digits]
  have nn: "0 \<le> digits_value ?v" using digits by (rule digits_value_nonneg)
  have fit: "digits_value ?v \<le> 2 ^ 63 - 1 \<longrightarrow>
          parse_exp7 (Suc n) ts pos = Inr (Num (digits_value ?v), Suc pos)"
    by (simp add: parse_exp7_Num [OF num] num_literal_def st)
  have over: "2 ^ 63 - 1 < digits_value ?v \<longrightarrow>
          parse_exp7 (Suc n) ts pos
          = Inl (ParseError (''parse error: invalid i64 number '' @ ?v
                             @ '' at token '' @ to_string (tindex (ts ! pos))))"
    by (simp add: parse_exp7_Num [OF num] num_literal_def st error_def)
  have v8: "digits_value ''9223372036854775808'' = 9223372036854775808"
    by (simp add: digits_value_def digit_value_def)
  have v7: "digits_value ''9223372036854775807'' = 9223372036854775807"
    by (simp add: digits_value_def digit_value_def)
  have c8: "?v = ''9223372036854775808'' \<longrightarrow>
          parse_exp7 (Suc n) ts pos
          = Inl (ParseError (''parse error: invalid i64 number 9223372036854775808 at token ''
                             @ to_string (tindex (ts ! pos))))"
  proof
    assume e: "?v = ''9223372036854775808''"
    with v8 have "2 ^ 63 - 1 < digits_value ?v" by simp
    with over e show "parse_exp7 (Suc n) ts pos
          = Inl (ParseError (''parse error: invalid i64 number 9223372036854775808 at token ''
                             @ to_string (tindex (ts ! pos))))" by simp
  qed
  have c7: "?v = ''9223372036854775807'' \<longrightarrow>
          parse_exp7 (Suc n) ts pos = Inr (Num 9223372036854775807, Suc pos)"
  proof
    assume e: "?v = ''9223372036854775807''"
    with v7 have "digits_value ?v \<le> 2 ^ 63 - 1" by simp
    with fit e v7 show "parse_exp7 (Suc n) ts pos = Inr (Num 9223372036854775807, Suc pos)"
      by simp
  qed
  from nn fit over c8 c7 show ?thesis by (intro conjI)
qed

theorem num_token_i64_witness:
  "check [\<lparr>ttype = ''Num'', tvalue = ''9223372036854775808'', tindex = 0\<rparr>] 0 ''Num''
   \<and> parse_exp7 (Suc 0) [\<lparr>ttype = ''Num'', tvalue = ''9223372036854775808'', tindex = 0\<rparr>] 0
       = Inl (ParseError ''parse error: invalid i64 number 9223372036854775808 at token 0'')
   \<and> check [\<lparr>ttype = ''Num'', tvalue = ''9223372036854775807'', tindex = 0\<rparr>] 0 ''Num''
   \<and> parse_exp7 (Suc 0) [\<lparr>ttype = ''Num'', tvalue = ''9223372036854775807'', tindex = 0\<rparr>] 0
       = Inr (Num 9223372036854775807, Suc 0)"
proof -
  let ?a = "[\<lparr>ttype = ''Num'', tvalue = ''9223372036854775808'', tindex = 0\<rparr>]"
  let ?b = "[\<lparr>ttype = ''Num'', tvalue = ''9223372036854775807'', tindex = 0\<rparr>]"
  have ca: "check ?a 0 ''Num''" by (simp add: check_def is_at_end_def)
  have cb: "check ?b 0 ''Num''" by (simp add: check_def is_at_end_def)
  have na: "tvalue (?a ! 0) \<noteq> []" by simp
  have nb: "tvalue (?b ! 0) \<noteq> []" by simp
  have da: "\<forall>c \<in> set (tvalue (?a ! 0)). isdigit c" by (simp add: isdigit_def)
  have db: "\<forall>c \<in> set (tvalue (?b ! 0)). isdigit c" by (simp add: isdigit_def)
  have z: "to_string 0 = ''0''" by code_simp
  from num_token_i64 [OF ca na da, of 0]
  have a: "parse_exp7 (Suc 0) ?a 0
       = Inl (ParseError ''parse error: invalid i64 number 9223372036854775808 at token 0'')"
    by (simp add: z)
  from num_token_i64 [OF cb nb db, of 0]
  have b: "parse_exp7 (Suc 0) ?b 0 = Inr (Num 9223372036854775807, Suc 0)"
    by simp
  from ca a cb b show ?thesis by (intro conjI)
qed

subsection \<open>More fuel never changes a result\<close>

lemma le_res_refl: "le_res r r"
  by (simp add: le_res_def)

lemma le_res_Inr: "le_res r r' \<Longrightarrow> r = Inr x \<Longrightarrow> r' = Inr x"
  by (auto simp: le_res_def)

lemma le_res_bind:
  "le_res m m' \<Longrightarrow> (\<And>x. le_res (f x) (f' x)) \<Longrightarrow> le_res (bind_res m f) (bind_res m' f')"
proof (cases m)
  case (Inl e)
  assume "le_res m m'"
  with Inl show ?thesis by (auto simp: le_res_def)
next
  case (Inr x)
  assume a: "le_res m m'" and b: "\<And>x. le_res (f x) (f' x)"
  from a Inr have "m' = Inr x" by (simp add: le_res_def)
  with Inr b [of x] show ?thesis by simp
qed

lemma le_res_if:
  "(c \<Longrightarrow> le_res a a') \<Longrightarrow> (\<not> c \<Longrightarrow> le_res b b')
   \<Longrightarrow> le_res (if c then a else b) (if c then a' else b')"
  by simp

lemma le_res_case_prod:
  "(\<And>a b. le_res (f a b) (f' a b)) \<Longrightarrow> le_res (case_prod f x) (case_prod f' x)"
  by (cases x) simp

lemma parse_type_body_mono:
  assumes "\<And>ts pos. le_res (fa ts pos) (ga ts pos)"
      and "\<And>ts pos. le_res (fb ts pos) (gb ts pos)"
  shows "le_res (parse_type_body fa fb ts pos)
               (parse_type_body ga gb ts pos)"
  unfolding parse_type_body_def
  by (intro le_res_bind le_res_if le_res_case_prod le_res_refl assms)

lemma parse_funtype_body_mono:
  assumes "\<And>ts pos. le_res (fa ts pos) (ga ts pos)"
      and "\<And>ts pos param_types. le_res (fb ts pos param_types) (gb ts pos param_types)"
  shows "le_res (parse_funtype_body fa fb ts pos)
               (parse_funtype_body ga gb ts pos)"
  unfolding parse_funtype_body_def
  by (intro le_res_bind le_res_if le_res_case_prod le_res_refl assms)

lemma parse_type_list_body_mono:
  assumes "\<And>ts pos. le_res (fa ts pos) (ga ts pos)"
      and "\<And>ts pos param_types. le_res (fb ts pos param_types) (gb ts pos param_types)"
  shows "le_res (parse_type_list_body fa fb ts pos param_types)
               (parse_type_list_body ga gb ts pos param_types)"
  unfolding parse_type_list_body_def
  by (intro le_res_bind le_res_if le_res_case_prod le_res_refl assms)

lemma type_fuel_step:
  "(\<forall>ts pos. le_res (parse_type n ts pos) (parse_type (Suc n) ts pos))
   \<and> (\<forall>ts pos. le_res (parse_funtype n ts pos) (parse_funtype (Suc n) ts pos))
   \<and> (\<forall>ts pos param_types. le_res (parse_type_list n ts pos param_types) (parse_type_list (Suc n) ts pos param_types))"
proof (induction n)
  case 0
  show ?case by (simp add: le_res_def parse_type_0 parse_funtype_0 parse_type_list_0)
next
  case (Suc n)
  from Suc.IH have i0: "le_res (parse_type n ts pos) (parse_type (Suc n) ts pos)" for ts pos by simp
  from Suc.IH have i1: "le_res (parse_funtype n ts pos) (parse_funtype (Suc n) ts pos)" for ts pos by simp
  from Suc.IH have i2: "le_res (parse_type_list n ts pos param_types) (parse_type_list (Suc n) ts pos param_types)" for ts pos param_types by simp
  have g0: "le_res (parse_type (Suc n) ts pos) (parse_type (Suc (Suc n)) ts pos)" for ts pos
    using parse_type_body_mono [where fa = "parse_type n" and ga = "parse_type (Suc n)" and fb = "parse_funtype n" and gb = "parse_funtype (Suc n)", OF i0 i1] unfolding parse_type_unfold [symmetric] .
  have g1: "le_res (parse_funtype (Suc n) ts pos) (parse_funtype (Suc (Suc n)) ts pos)" for ts pos
    using parse_funtype_body_mono [where fa = "parse_type n" and ga = "parse_type (Suc n)" and fb = "parse_type_list n" and gb = "parse_type_list (Suc n)", OF i0 i2] unfolding parse_funtype_unfold [symmetric] .
  have g2: "le_res (parse_type_list (Suc n) ts pos param_types) (parse_type_list (Suc (Suc n)) ts pos param_types)" for ts pos param_types
    using parse_type_list_body_mono [where fa = "parse_type n" and ga = "parse_type (Suc n)" and fb = "parse_type_list n" and gb = "parse_type_list (Suc n)", OF i0 i2] unfolding parse_type_list_unfold [symmetric] .
  show ?case
    by (intro conjI allI) (rule g0 g1 g2)+
qed

lemma parse_type_fuel_Suc: "le_res (parse_type n ts pos) (parse_type (Suc n) ts pos)"
  using type_fuel_step [of n] by simp

lemma parse_type_fuel:
  "parse_type n ts pos = Inr r \<Longrightarrow> parse_type (n + k) ts pos = Inr r"
  by (induction k) (use parse_type_fuel_Suc le_res_Inr in fastforce)+

lemma parse_funtype_fuel_Suc: "le_res (parse_funtype n ts pos) (parse_funtype (Suc n) ts pos)"
  using type_fuel_step [of n] by simp

lemma parse_funtype_fuel:
  "parse_funtype n ts pos = Inr r \<Longrightarrow> parse_funtype (n + k) ts pos = Inr r"
  by (induction k) (use parse_funtype_fuel_Suc le_res_Inr in fastforce)+

lemma parse_type_list_fuel_Suc: "le_res (parse_type_list n ts pos param_types) (parse_type_list (Suc n) ts pos param_types)"
  using type_fuel_step [of n] by simp

lemma parse_type_list_fuel:
  "parse_type_list n ts pos param_types = Inr r \<Longrightarrow> parse_type_list (n + k) ts pos param_types = Inr r"
  by (induction k) (use parse_type_list_fuel_Suc le_res_Inr in fastforce)+

lemma parse_exp_body_mono:
  assumes "\<And>left ts pos. le_res (fa left ts pos) (ga left ts pos)"
      and "\<And>ts pos. le_res (fb ts pos) (gb ts pos)"
  shows "le_res (parse_exp_body fa fb ts pos)
               (parse_exp_body ga gb ts pos)"
  unfolding parse_exp_body_def
  by (intro le_res_bind le_res_if le_res_case_prod le_res_refl assms)

lemma parse_exp_loop_body_mono:
  assumes "\<And>ts pos. le_res (fa ts pos) (ga ts pos)"
      and "\<And>left ts pos. le_res (fb left ts pos) (gb left ts pos)"
      and "\<And>ts pos. le_res (fc ts pos) (gc ts pos)"
  shows "le_res (parse_exp_loop_body fa fb fc left ts pos)
               (parse_exp_loop_body ga gb gc left ts pos)"
  unfolding parse_exp_loop_body_def
  by (intro le_res_bind le_res_if le_res_case_prod le_res_refl assms)

lemma parse_exp1_body_mono:
  assumes "\<And>ts pos. le_res (fa ts pos) (ga ts pos)"
      and "\<And>ts pos. le_res (fb ts pos) (gb ts pos)"
  shows "le_res (parse_exp1_body fa fb ts pos)
               (parse_exp1_body ga gb ts pos)"
  unfolding parse_exp1_body_def
  by (intro le_res_bind le_res_if le_res_case_prod le_res_refl assms)

lemma parse_exp2_body_mono:
  assumes "\<And>left ts pos. le_res (fa left ts pos) (ga left ts pos)"
      and "\<And>ts pos. le_res (fb ts pos) (gb ts pos)"
  shows "le_res (parse_exp2_body fa fb ts pos)
               (parse_exp2_body ga gb ts pos)"
  unfolding parse_exp2_body_def
  by (intro le_res_bind le_res_if le_res_case_prod le_res_refl assms)

lemma parse_exp2_loop_body_mono:
  assumes "\<And>left ts pos. le_res (fa left ts pos) (ga left ts pos)"
      and "\<And>ts pos. le_res (fb ts pos) (gb ts pos)"
  shows "le_res (parse_exp2_loop_body fa fb left ts pos)
               (parse_exp2_loop_body ga gb left ts pos)"
  unfolding parse_exp2_loop_body_def
  by (intro le_res_bind le_res_if le_res_case_prod le_res_refl assms)

lemma parse_exp3_body_mono:
  assumes "\<And>left ts pos. le_res (fa left ts pos) (ga left ts pos)"
      and "\<And>ts pos. le_res (fb ts pos) (gb ts pos)"
  shows "le_res (parse_exp3_body fa fb ts pos)
               (parse_exp3_body ga gb ts pos)"
  unfolding parse_exp3_body_def
  by (intro le_res_bind le_res_if le_res_case_prod le_res_refl assms)

lemma parse_exp3_loop_body_mono:
  assumes "\<And>left ts pos. le_res (fa left ts pos) (ga left ts pos)"
      and "\<And>ts pos. le_res (fb ts pos) (gb ts pos)"
  shows "le_res (parse_exp3_loop_body fa fb left ts pos)
               (parse_exp3_loop_body ga gb left ts pos)"
  unfolding parse_exp3_loop_body_def
  by (intro le_res_bind le_res_if le_res_case_prod le_res_refl assms)

lemma parse_exp4_body_mono:
  assumes "\<And>left ts pos. le_res (fa left ts pos) (ga left ts pos)"
      and "\<And>ts pos. le_res (fb ts pos) (gb ts pos)"
  shows "le_res (parse_exp4_body fa fb ts pos)
               (parse_exp4_body ga gb ts pos)"
  unfolding parse_exp4_body_def
  by (intro le_res_bind le_res_if le_res_case_prod le_res_refl assms)

lemma parse_exp4_loop_body_mono:
  assumes "\<And>left ts pos. le_res (fa left ts pos) (ga left ts pos)"
      and "\<And>ts pos. le_res (fb ts pos) (gb ts pos)"
  shows "le_res (parse_exp4_loop_body fa fb left ts pos)
               (parse_exp4_loop_body ga gb left ts pos)"
  unfolding parse_exp4_loop_body_def
  by (intro le_res_bind le_res_if le_res_case_prod le_res_refl assms)

lemma parse_exp5_body_mono:
  assumes "\<And>ts pos. le_res (fa ts pos) (ga ts pos)"
      and "\<And>ts pos. le_res (fb ts pos) (gb ts pos)"
  shows "le_res (parse_exp5_body fa fb ts pos)
               (parse_exp5_body ga gb ts pos)"
  unfolding parse_exp5_body_def
  by (intro le_res_bind le_res_if le_res_case_prod le_res_refl assms)

lemma parse_exp6_body_mono:
  assumes "\<And>exp ts pos. le_res (fa exp ts pos) (ga exp ts pos)"
      and "\<And>ts pos. le_res (fb ts pos) (gb ts pos)"
  shows "le_res (parse_exp6_body fa fb ts pos)
               (parse_exp6_body ga gb ts pos)"
  unfolding parse_exp6_body_def
  by (intro le_res_bind le_res_if le_res_case_prod le_res_refl assms)

lemma parse_exp6_loop_body_mono:
  assumes "\<And>ts pos. le_res (fa ts pos) (ga ts pos)"
      and "\<And>exp ts pos. le_res (fb exp ts pos) (gb exp ts pos)"
      and "\<And>ts pos args. le_res (fc ts pos args) (gc ts pos args)"
  shows "le_res (parse_exp6_loop_body fa fb fc exp ts pos)
               (parse_exp6_loop_body ga gb gc exp ts pos)"
  unfolding parse_exp6_loop_body_def
  by (intro le_res_bind le_res_if le_res_case_prod le_res_refl assms)

lemma parse_args_body_mono:
  assumes "\<And>ts pos. le_res (fa ts pos) (ga ts pos)"
      and "\<And>ts pos args. le_res (fb ts pos args) (gb ts pos args)"
  shows "le_res (parse_args_body fa fb ts pos args)
               (parse_args_body ga gb ts pos args)"
  unfolding parse_args_body_def
  by (intro le_res_bind le_res_if le_res_case_prod le_res_refl assms)

lemma parse_exp7_body_mono:
  assumes "\<And>ts pos. le_res (fa ts pos) (ga ts pos)"
      and "\<And>ts pos. le_res (parse_type n ts pos) (parse_type m ts pos)"
  shows "le_res (parse_exp7_body n fa ts pos)
               (parse_exp7_body m ga ts pos)"
  unfolding parse_exp7_body_def
  by (intro le_res_bind le_res_if le_res_case_prod le_res_refl assms)

lemma exp_fuel_step:
  "(\<forall>ts pos. le_res (parse_exp n ts pos) (parse_exp (Suc n) ts pos))
   \<and> (\<forall>left ts pos. le_res (parse_exp_loop n left ts pos) (parse_exp_loop (Suc n) left ts pos))
   \<and> (\<forall>ts pos. le_res (parse_exp1 n ts pos) (parse_exp1 (Suc n) ts pos))
   \<and> (\<forall>ts pos. le_res (parse_exp2 n ts pos) (parse_exp2 (Suc n) ts pos))
   \<and> (\<forall>left ts pos. le_res (parse_exp2_loop n left ts pos) (parse_exp2_loop (Suc n) left ts pos))
   \<and> (\<forall>ts pos. le_res (parse_exp3 n ts pos) (parse_exp3 (Suc n) ts pos))
   \<and> (\<forall>left ts pos. le_res (parse_exp3_loop n left ts pos) (parse_exp3_loop (Suc n) left ts pos))
   \<and> (\<forall>ts pos. le_res (parse_exp4 n ts pos) (parse_exp4 (Suc n) ts pos))
   \<and> (\<forall>left ts pos. le_res (parse_exp4_loop n left ts pos) (parse_exp4_loop (Suc n) left ts pos))
   \<and> (\<forall>ts pos. le_res (parse_exp5 n ts pos) (parse_exp5 (Suc n) ts pos))
   \<and> (\<forall>ts pos. le_res (parse_exp6 n ts pos) (parse_exp6 (Suc n) ts pos))
   \<and> (\<forall>exp ts pos. le_res (parse_exp6_loop n exp ts pos) (parse_exp6_loop (Suc n) exp ts pos))
   \<and> (\<forall>ts pos args. le_res (parse_args n ts pos args) (parse_args (Suc n) ts pos args))
   \<and> (\<forall>ts pos. le_res (parse_exp7 n ts pos) (parse_exp7 (Suc n) ts pos))"
proof (induction n)
  case 0
  show ?case by (simp add: le_res_def parse_exp_0 parse_exp_loop_0 parse_exp1_0 parse_exp2_0 parse_exp2_loop_0 parse_exp3_0 parse_exp3_loop_0 parse_exp4_0 parse_exp4_loop_0 parse_exp5_0 parse_exp6_0 parse_exp6_loop_0 parse_args_0 parse_exp7_0)
next
  case (Suc n)
  from Suc.IH have i0: "le_res (parse_exp n ts pos) (parse_exp (Suc n) ts pos)" for ts pos by simp
  from Suc.IH have i1: "le_res (parse_exp_loop n left ts pos) (parse_exp_loop (Suc n) left ts pos)" for left ts pos by simp
  from Suc.IH have i2: "le_res (parse_exp1 n ts pos) (parse_exp1 (Suc n) ts pos)" for ts pos by simp
  from Suc.IH have i3: "le_res (parse_exp2 n ts pos) (parse_exp2 (Suc n) ts pos)" for ts pos by simp
  from Suc.IH have i4: "le_res (parse_exp2_loop n left ts pos) (parse_exp2_loop (Suc n) left ts pos)" for left ts pos by simp
  from Suc.IH have i5: "le_res (parse_exp3 n ts pos) (parse_exp3 (Suc n) ts pos)" for ts pos by simp
  from Suc.IH have i6: "le_res (parse_exp3_loop n left ts pos) (parse_exp3_loop (Suc n) left ts pos)" for left ts pos by simp
  from Suc.IH have i7: "le_res (parse_exp4 n ts pos) (parse_exp4 (Suc n) ts pos)" for ts pos by simp
  from Suc.IH have i8: "le_res (parse_exp4_loop n left ts pos) (parse_exp4_loop (Suc n) left ts pos)" for left ts pos by simp
  from Suc.IH have i9: "le_res (parse_exp5 n ts pos) (parse_exp5 (Suc n) ts pos)" for ts pos by simp
  from Suc.IH have i10: "le_res (parse_exp6 n ts pos) (parse_exp6 (Suc n) ts pos)" for ts pos by simp
  from Suc.IH have i11: "le_res (parse_exp6_loop n exp ts pos) (parse_exp6_loop (Suc n) exp ts pos)" for exp ts pos by simp
  from Suc.IH have i12: "le_res (parse_args n ts pos args) (parse_args (Suc n) ts pos args)" for ts pos args by simp
  from Suc.IH have i13: "le_res (parse_exp7 n ts pos) (parse_exp7 (Suc n) ts pos)" for ts pos by simp
  have g0: "le_res (parse_exp (Suc n) ts pos) (parse_exp (Suc (Suc n)) ts pos)" for ts pos
    using parse_exp_body_mono [where fa = "parse_exp_loop n" and ga = "parse_exp_loop (Suc n)" and fb = "parse_exp1 n" and gb = "parse_exp1 (Suc n)", OF i1 i2] unfolding parse_exp_unfold [symmetric] .
  have g1: "le_res (parse_exp_loop (Suc n) left ts pos) (parse_exp_loop (Suc (Suc n)) left ts pos)" for left ts pos
    using parse_exp_loop_body_mono [where fa = "parse_exp n" and ga = "parse_exp (Suc n)" and fb = "parse_exp_loop n" and gb = "parse_exp_loop (Suc n)" and fc = "parse_exp1 n" and gc = "parse_exp1 (Suc n)", OF i0 i1 i2] unfolding parse_exp_loop_unfold [symmetric] .
  have g2: "le_res (parse_exp1 (Suc n) ts pos) (parse_exp1 (Suc (Suc n)) ts pos)" for ts pos
    using parse_exp1_body_mono [where fa = "parse_exp1 n" and ga = "parse_exp1 (Suc n)" and fb = "parse_exp2 n" and gb = "parse_exp2 (Suc n)", OF i2 i3] unfolding parse_exp1_unfold [symmetric] .
  have g3: "le_res (parse_exp2 (Suc n) ts pos) (parse_exp2 (Suc (Suc n)) ts pos)" for ts pos
    using parse_exp2_body_mono [where fa = "parse_exp2_loop n" and ga = "parse_exp2_loop (Suc n)" and fb = "parse_exp3 n" and gb = "parse_exp3 (Suc n)", OF i4 i5] unfolding parse_exp2_unfold [symmetric] .
  have g4: "le_res (parse_exp2_loop (Suc n) left ts pos) (parse_exp2_loop (Suc (Suc n)) left ts pos)" for left ts pos
    using parse_exp2_loop_body_mono [where fa = "parse_exp2_loop n" and ga = "parse_exp2_loop (Suc n)" and fb = "parse_exp3 n" and gb = "parse_exp3 (Suc n)", OF i4 i5] unfolding parse_exp2_loop_unfold [symmetric] .
  have g5: "le_res (parse_exp3 (Suc n) ts pos) (parse_exp3 (Suc (Suc n)) ts pos)" for ts pos
    using parse_exp3_body_mono [where fa = "parse_exp3_loop n" and ga = "parse_exp3_loop (Suc n)" and fb = "parse_exp4 n" and gb = "parse_exp4 (Suc n)", OF i6 i7] unfolding parse_exp3_unfold [symmetric] .
  have g6: "le_res (parse_exp3_loop (Suc n) left ts pos) (parse_exp3_loop (Suc (Suc n)) left ts pos)" for left ts pos
    using parse_exp3_loop_body_mono [where fa = "parse_exp3_loop n" and ga = "parse_exp3_loop (Suc n)" and fb = "parse_exp4 n" and gb = "parse_exp4 (Suc n)", OF i6 i7] unfolding parse_exp3_loop_unfold [symmetric] .
  have g7: "le_res (parse_exp4 (Suc n) ts pos) (parse_exp4 (Suc (Suc n)) ts pos)" for ts pos
    using parse_exp4_body_mono [where fa = "parse_exp4_loop n" and ga = "parse_exp4_loop (Suc n)" and fb = "parse_exp5 n" and gb = "parse_exp5 (Suc n)", OF i8 i9] unfolding parse_exp4_unfold [symmetric] .
  have g8: "le_res (parse_exp4_loop (Suc n) left ts pos) (parse_exp4_loop (Suc (Suc n)) left ts pos)" for left ts pos
    using parse_exp4_loop_body_mono [where fa = "parse_exp4_loop n" and ga = "parse_exp4_loop (Suc n)" and fb = "parse_exp5 n" and gb = "parse_exp5 (Suc n)", OF i8 i9] unfolding parse_exp4_loop_unfold [symmetric] .
  have g9: "le_res (parse_exp5 (Suc n) ts pos) (parse_exp5 (Suc (Suc n)) ts pos)" for ts pos
    using parse_exp5_body_mono [where fa = "parse_exp5 n" and ga = "parse_exp5 (Suc n)" and fb = "parse_exp6 n" and gb = "parse_exp6 (Suc n)", OF i9 i10] unfolding parse_exp5_unfold [symmetric] .
  have g10: "le_res (parse_exp6 (Suc n) ts pos) (parse_exp6 (Suc (Suc n)) ts pos)" for ts pos
    using parse_exp6_body_mono [where fa = "parse_exp6_loop n" and ga = "parse_exp6_loop (Suc n)" and fb = "parse_exp7 n" and gb = "parse_exp7 (Suc n)", OF i11 i13] unfolding parse_exp6_unfold [symmetric] .
  have g11: "le_res (parse_exp6_loop (Suc n) exp ts pos) (parse_exp6_loop (Suc (Suc n)) exp ts pos)" for exp ts pos
    using parse_exp6_loop_body_mono [where fa = "parse_exp n" and ga = "parse_exp (Suc n)" and fb = "parse_exp6_loop n" and gb = "parse_exp6_loop (Suc n)" and fc = "parse_args n" and gc = "parse_args (Suc n)", OF i0 i11 i12] unfolding parse_exp6_loop_unfold [symmetric] .
  have g12: "le_res (parse_args (Suc n) ts pos args) (parse_args (Suc (Suc n)) ts pos args)" for ts pos args
    using parse_args_body_mono [where fa = "parse_exp n" and ga = "parse_exp (Suc n)" and fb = "parse_args n" and gb = "parse_args (Suc n)", OF i0 i12] unfolding parse_args_unfold [symmetric] .
  have g13: "le_res (parse_exp7 (Suc n) ts pos) (parse_exp7 (Suc (Suc n)) ts pos)" for ts pos
    using parse_exp7_body_mono [where fa = "parse_exp n" and ga = "parse_exp (Suc n)" and n = n and m = "Suc n", OF i0 parse_type_fuel_Suc [of n]] unfolding parse_exp7_unfold [symmetric] .
  show ?case
    by (intro conjI allI) (rule g0 g1 g2 g3 g4 g5 g6 g7 g8 g9 g10 g11 g12 g13)+
qed

lemma parse_exp_fuel_Suc: "le_res (parse_exp n ts pos) (parse_exp (Suc n) ts pos)"
  using exp_fuel_step [of n] by simp

lemma parse_exp_fuel:
  "parse_exp n ts pos = Inr r \<Longrightarrow> parse_exp (n + k) ts pos = Inr r"
  by (induction k) (use parse_exp_fuel_Suc le_res_Inr in fastforce)+

lemma parse_exp_loop_fuel_Suc: "le_res (parse_exp_loop n left ts pos) (parse_exp_loop (Suc n) left ts pos)"
  using exp_fuel_step [of n] by simp

lemma parse_exp_loop_fuel:
  "parse_exp_loop n left ts pos = Inr r \<Longrightarrow> parse_exp_loop (n + k) left ts pos = Inr r"
  by (induction k) (use parse_exp_loop_fuel_Suc le_res_Inr in fastforce)+

lemma parse_exp1_fuel_Suc: "le_res (parse_exp1 n ts pos) (parse_exp1 (Suc n) ts pos)"
  using exp_fuel_step [of n] by simp

lemma parse_exp1_fuel:
  "parse_exp1 n ts pos = Inr r \<Longrightarrow> parse_exp1 (n + k) ts pos = Inr r"
  by (induction k) (use parse_exp1_fuel_Suc le_res_Inr in fastforce)+

lemma parse_exp2_fuel_Suc: "le_res (parse_exp2 n ts pos) (parse_exp2 (Suc n) ts pos)"
  using exp_fuel_step [of n] by simp

lemma parse_exp2_fuel:
  "parse_exp2 n ts pos = Inr r \<Longrightarrow> parse_exp2 (n + k) ts pos = Inr r"
  by (induction k) (use parse_exp2_fuel_Suc le_res_Inr in fastforce)+

lemma parse_exp2_loop_fuel_Suc: "le_res (parse_exp2_loop n left ts pos) (parse_exp2_loop (Suc n) left ts pos)"
  using exp_fuel_step [of n] by simp

lemma parse_exp2_loop_fuel:
  "parse_exp2_loop n left ts pos = Inr r \<Longrightarrow> parse_exp2_loop (n + k) left ts pos = Inr r"
  by (induction k) (use parse_exp2_loop_fuel_Suc le_res_Inr in fastforce)+

lemma parse_exp3_fuel_Suc: "le_res (parse_exp3 n ts pos) (parse_exp3 (Suc n) ts pos)"
  using exp_fuel_step [of n] by simp

lemma parse_exp3_fuel:
  "parse_exp3 n ts pos = Inr r \<Longrightarrow> parse_exp3 (n + k) ts pos = Inr r"
  by (induction k) (use parse_exp3_fuel_Suc le_res_Inr in fastforce)+

lemma parse_exp3_loop_fuel_Suc: "le_res (parse_exp3_loop n left ts pos) (parse_exp3_loop (Suc n) left ts pos)"
  using exp_fuel_step [of n] by simp

lemma parse_exp3_loop_fuel:
  "parse_exp3_loop n left ts pos = Inr r \<Longrightarrow> parse_exp3_loop (n + k) left ts pos = Inr r"
  by (induction k) (use parse_exp3_loop_fuel_Suc le_res_Inr in fastforce)+

lemma parse_exp4_fuel_Suc: "le_res (parse_exp4 n ts pos) (parse_exp4 (Suc n) ts pos)"
  using exp_fuel_step [of n] by simp

lemma parse_exp4_fuel:
  "parse_exp4 n ts pos = Inr r \<Longrightarrow> parse_exp4 (n + k) ts pos = Inr r"
  by (induction k) (use parse_exp4_fuel_Suc le_res_Inr in fastforce)+

lemma parse_exp4_loop_fuel_Suc: "le_res (parse_exp4_loop n left ts pos) (parse_exp4_loop (Suc n) left ts pos)"
  using exp_fuel_step [of n] by simp

lemma parse_exp4_loop_fuel:
  "parse_exp4_loop n left ts pos = Inr r \<Longrightarrow> parse_exp4_loop (n + k) left ts pos = Inr r"
  by (induction k) (use parse_exp4_loop_fuel_Suc le_res_Inr in fastforce)+

lemma parse_exp5_fuel_Suc: "le_res (parse_exp5 n ts pos) (parse_exp5 (Suc n) ts pos)"
  using exp_fuel_step [of n] by simp

lemma parse_exp5_fuel:
  "parse_exp5 n ts pos = Inr r \<Longrightarrow> parse_exp5 (n + k) ts pos = Inr r"
  by (induction k) (use parse_exp5_fuel_Suc le_res_Inr in fastforce)+

lemma parse_exp6_fuel_Suc: "le_res (parse_exp6 n ts pos) (parse_exp6 (Suc n) ts pos)"
  using exp_fuel_step [of n] by simp

lemma parse_exp6_fuel:
  "parse_exp6 n ts pos = Inr r \<Longrightarrow> parse_exp6 (n + k) ts pos = Inr r"
  by (induction k) (use parse_exp6_fuel_Suc le_res_Inr in fastforce)+

lemma parse_exp6_loop_fuel_Suc: "le_res (parse_exp6_loop n exp ts pos) (parse_exp6_loop (Suc n) exp ts pos)"
  using exp_fuel_step [of n] by simp

lemma parse_exp6_loop_fuel:
  "parse_exp6_loop n exp ts pos = Inr r \<Longrightarrow> parse_exp6_loop (n + k) exp ts pos = Inr r"
  by (induction k) (use parse_exp6_loop_fuel_Suc le_res_Inr in fastforce)+

lemma parse_args_fuel_Suc: "le_res (parse_args n ts pos args) (parse_args (Suc n) ts pos args)"
  using exp_fuel_step [of n] by simp

lemma parse_args_fuel:
  "parse_args n ts pos args = Inr r \<Longrightarrow> parse_args (n + k) ts pos args = Inr r"
  by (induction k) (use parse_args_fuel_Suc le_res_Inr in fastforce)+

lemma parse_exp7_fuel_Suc: "le_res (parse_exp7 n ts pos) (parse_exp7 (Suc n) ts pos)"
  using exp_fuel_step [of n] by simp

lemma parse_exp7_fuel:
  "parse_exp7 n ts pos = Inr r \<Longrightarrow> parse_exp7 (n + k) ts pos = Inr r"
  by (induction k) (use parse_exp7_fuel_Suc le_res_Inr in fastforce)+

lemma parse_stmt_body_mono:
  assumes "\<And>ts pos. le_res (fa ts pos) (ga ts pos)"
      and "\<And>ts pos. le_res (fb ts pos) (gb ts pos)"
      and "\<And>ts pos. le_res (fc ts pos) (gc ts pos)"
      and "\<And>ts pos. le_res (parse_exp n ts pos) (parse_exp m ts pos)"
  shows "le_res (parse_stmt_body n fa fb fc ts pos)
               (parse_stmt_body m ga gb gc ts pos)"
  unfolding parse_stmt_body_def
  by (intro le_res_bind le_res_if le_res_case_prod le_res_refl assms)

lemma parse_if_stmt_body_mono:
  assumes "\<And>ts pos. le_res (fa ts pos) (ga ts pos)"
      and "\<And>ts pos. le_res (parse_exp n ts pos) (parse_exp m ts pos)"
  shows "le_res (parse_if_stmt_body n fa ts pos)
               (parse_if_stmt_body m ga ts pos)"
  unfolding parse_if_stmt_body_def
  by (intro le_res_bind le_res_if le_res_case_prod le_res_refl assms)

lemma parse_block_body_mono:
  assumes "\<And>ts pos stmts. le_res (fa ts pos stmts) (ga ts pos stmts)"
  shows "le_res (parse_block_body fa ts pos)
               (parse_block_body ga ts pos)"
  unfolding parse_block_body_def
  by (intro le_res_bind le_res_if le_res_case_prod le_res_refl assms)

lemma parse_block_loop_body_mono:
  assumes "\<And>ts pos. le_res (fa ts pos) (ga ts pos)"
      and "\<And>ts pos stmts. le_res (fb ts pos stmts) (gb ts pos stmts)"
  shows "le_res (parse_block_loop_body fa fb ts pos stmts)
               (parse_block_loop_body ga gb ts pos stmts)"
  unfolding parse_block_loop_body_def
  by (intro le_res_bind le_res_if le_res_case_prod le_res_refl assms)

lemma parse_while_stmt_body_mono:
  assumes "\<And>ts pos. le_res (fa ts pos) (ga ts pos)"
      and "\<And>ts pos. le_res (parse_exp n ts pos) (parse_exp m ts pos)"
  shows "le_res (parse_while_stmt_body n fa ts pos)
               (parse_while_stmt_body m ga ts pos)"
  unfolding parse_while_stmt_body_def
  by (intro le_res_bind le_res_if le_res_case_prod le_res_refl assms)

lemma parse_return_stmt_body_mono:
  assumes "\<And>ts pos. le_res (parse_exp n ts pos) (parse_exp m ts pos)"
  shows "le_res (parse_return_stmt_body n ts pos)
               (parse_return_stmt_body m ts pos)"
  unfolding parse_return_stmt_body_def
  by (intro le_res_bind le_res_if le_res_case_prod le_res_refl assms)

lemma stmt_fuel_step:
  "(\<forall>ts pos. le_res (parse_stmt n ts pos) (parse_stmt (Suc n) ts pos))
   \<and> (\<forall>ts pos. le_res (parse_if_stmt n ts pos) (parse_if_stmt (Suc n) ts pos))
   \<and> (\<forall>ts pos. le_res (parse_block n ts pos) (parse_block (Suc n) ts pos))
   \<and> (\<forall>ts pos stmts. le_res (parse_block_loop n ts pos stmts) (parse_block_loop (Suc n) ts pos stmts))
   \<and> (\<forall>ts pos. le_res (parse_while_stmt n ts pos) (parse_while_stmt (Suc n) ts pos))
   \<and> (\<forall>ts pos. le_res (parse_return_stmt n ts pos) (parse_return_stmt (Suc n) ts pos))"
proof (induction n)
  case 0
  show ?case by (simp add: le_res_def parse_stmt_0 parse_if_stmt_0 parse_block_0 parse_block_loop_0 parse_while_stmt_0 parse_return_stmt_0)
next
  case (Suc n)
  from Suc.IH have i0: "le_res (parse_stmt n ts pos) (parse_stmt (Suc n) ts pos)" for ts pos by simp
  from Suc.IH have i1: "le_res (parse_if_stmt n ts pos) (parse_if_stmt (Suc n) ts pos)" for ts pos by simp
  from Suc.IH have i2: "le_res (parse_block n ts pos) (parse_block (Suc n) ts pos)" for ts pos by simp
  from Suc.IH have i3: "le_res (parse_block_loop n ts pos stmts) (parse_block_loop (Suc n) ts pos stmts)" for ts pos stmts by simp
  from Suc.IH have i4: "le_res (parse_while_stmt n ts pos) (parse_while_stmt (Suc n) ts pos)" for ts pos by simp
  from Suc.IH have i5: "le_res (parse_return_stmt n ts pos) (parse_return_stmt (Suc n) ts pos)" for ts pos by simp
  have g0: "le_res (parse_stmt (Suc n) ts pos) (parse_stmt (Suc (Suc n)) ts pos)" for ts pos
    using parse_stmt_body_mono [where fa = "parse_if_stmt n" and ga = "parse_if_stmt (Suc n)" and fb = "parse_while_stmt n" and gb = "parse_while_stmt (Suc n)" and fc = "parse_return_stmt n" and gc = "parse_return_stmt (Suc n)" and n = n and m = "Suc n", OF i1 i4 i5 parse_exp_fuel_Suc [of n]] unfolding parse_stmt_unfold [symmetric] .
  have g1: "le_res (parse_if_stmt (Suc n) ts pos) (parse_if_stmt (Suc (Suc n)) ts pos)" for ts pos
    using parse_if_stmt_body_mono [where fa = "parse_block n" and ga = "parse_block (Suc n)" and n = n and m = "Suc n", OF i2 parse_exp_fuel_Suc [of n]] unfolding parse_if_stmt_unfold [symmetric] .
  have g2: "le_res (parse_block (Suc n) ts pos) (parse_block (Suc (Suc n)) ts pos)" for ts pos
    using parse_block_body_mono [where fa = "parse_block_loop n" and ga = "parse_block_loop (Suc n)", OF i3] unfolding parse_block_unfold [symmetric] .
  have g3: "le_res (parse_block_loop (Suc n) ts pos stmts) (parse_block_loop (Suc (Suc n)) ts pos stmts)" for ts pos stmts
    using parse_block_loop_body_mono [where fa = "parse_stmt n" and ga = "parse_stmt (Suc n)" and fb = "parse_block_loop n" and gb = "parse_block_loop (Suc n)", OF i0 i3] unfolding parse_block_loop_unfold [symmetric] .
  have g4: "le_res (parse_while_stmt (Suc n) ts pos) (parse_while_stmt (Suc (Suc n)) ts pos)" for ts pos
    using parse_while_stmt_body_mono [where fa = "parse_block n" and ga = "parse_block (Suc n)" and n = n and m = "Suc n", OF i2 parse_exp_fuel_Suc [of n]] unfolding parse_while_stmt_unfold [symmetric] .
  have g5: "le_res (parse_return_stmt (Suc n) ts pos) (parse_return_stmt (Suc (Suc n)) ts pos)" for ts pos
    using parse_return_stmt_body_mono [where n = n and m = "Suc n", OF parse_exp_fuel_Suc [of n]] unfolding parse_return_stmt_unfold [symmetric] .
  show ?case
    by (intro conjI allI) (rule g0 g1 g2 g3 g4 g5)+
qed

lemma parse_stmt_fuel_Suc: "le_res (parse_stmt n ts pos) (parse_stmt (Suc n) ts pos)"
  using stmt_fuel_step [of n] by simp

lemma parse_stmt_fuel:
  "parse_stmt n ts pos = Inr r \<Longrightarrow> parse_stmt (n + k) ts pos = Inr r"
  by (induction k) (use parse_stmt_fuel_Suc le_res_Inr in fastforce)+

lemma parse_if_stmt_fuel_Suc: "le_res (parse_if_stmt n ts pos) (parse_if_stmt (Suc n) ts pos)"
  using stmt_fuel_step [of n] by simp

lemma parse_if_stmt_fuel:
  "parse_if_stmt n ts pos = Inr r \<Longrightarrow> parse_if_stmt (n + k) ts pos = Inr r"
  by (induction k) (use parse_if_stmt_fuel_Suc le_res_Inr in fastforce)+

lemma parse_block_fuel_Suc: "le_res (parse_block n ts pos) (parse_block (Suc n) ts pos)"
  using stmt_fuel_step [of n] by simp

lemma parse_block_fuel:
  "parse_block n ts pos = Inr r \<Longrightarrow> parse_block (n + k) ts pos = Inr r"
  by (induction k) (use parse_block_fuel_Suc le_res_Inr in fastforce)+

lemma parse_block_loop_fuel_Suc: "le_res (parse_block_loop n ts pos stmts) (parse_block_loop (Suc n) ts pos stmts)"
  using stmt_fuel_step [of n] by simp

lemma parse_block_loop_fuel:
  "parse_block_loop n ts pos stmts = Inr r \<Longrightarrow> parse_block_loop (n + k) ts pos stmts = Inr r"
  by (induction k) (use parse_block_loop_fuel_Suc le_res_Inr in fastforce)+

lemma parse_while_stmt_fuel_Suc: "le_res (parse_while_stmt n ts pos) (parse_while_stmt (Suc n) ts pos)"
  using stmt_fuel_step [of n] by simp

lemma parse_while_stmt_fuel:
  "parse_while_stmt n ts pos = Inr r \<Longrightarrow> parse_while_stmt (n + k) ts pos = Inr r"
  by (induction k) (use parse_while_stmt_fuel_Suc le_res_Inr in fastforce)+

lemma parse_return_stmt_fuel_Suc: "le_res (parse_return_stmt n ts pos) (parse_return_stmt (Suc n) ts pos)"
  using stmt_fuel_step [of n] by simp

lemma parse_return_stmt_fuel:
  "parse_return_stmt n ts pos = Inr r \<Longrightarrow> parse_return_stmt (n + k) ts pos = Inr r"
  by (induction k) (use parse_return_stmt_fuel_Suc le_res_Inr in fastforce)+

subsection \<open>The conditional expression\<close>

lemma parse_exp_loop_done:
  "\<not> check ts pos ''QuestionMark'' \<Longrightarrow> parse_exp_loop (Suc n) left ts pos = Inr (left, pos)"
  by (simp add: parse_exp_loop_Suc)

text \<open>
  Claim C2.  After the guard and a question mark the loop of \<^verbatim>\<open>parse_exp\<close> parses the true
  arm with \<^verbatim>\<open>parse_exp\<close> itself and, after the colon, the false arm with \<^verbatim>\<open>parse_exp1\<close>, and
  goes on with the \<open>Select\<close> node as the left operand.  So a conditional nests in the
  middle arm: \<^verbatim>\<open>a ? b ? c : d : e\<close> is \<^verbatim>\<open>a ? (b ? c : d) : e\<close>, while a question mark after
  the false arm takes the whole conditional as its guard.
\<close>

theorem ternary_arms:
  assumes g: "parse_exp1 n ts pos = Inr (guard, p1)"
      and q: "check ts p1 ''QuestionMark''"
      and t: "parse_exp n ts (Suc p1) = Inr (tt, p2)"
      and c: "check ts p2 ''Colon''"
      and f: "parse_exp1 n ts (Suc p2) = Inr (ff, p3)"
  shows "parse_exp_loop (Suc n) guard ts p1 = parse_exp_loop n (Select guard tt ff) ts p3
       \<and> parse_exp (Suc (Suc n)) ts pos = parse_exp_loop n (Select guard tt ff) ts p3
       \<and> (\<not> check ts p3 ''QuestionMark'' \<longrightarrow>
            parse_exp (Suc (Suc (Suc n))) ts pos = Inr (Select guard tt ff, p3))
       \<and> parse_exp 30
            (tokenize_input ''Id(a) QuestionMark Id(b) QuestionMark Id(c) Colon Id(d) Colon Id(e)'') 0
          = Inr (Select (Val (IdPlace ''a''))
                   (Select (Val (IdPlace ''b'')) (Val (IdPlace ''c'')) (Val (IdPlace ''d'')))
                   (Val (IdPlace ''e'')), 9)
       \<and> parse_exp 30
            (tokenize_input ''Id(a) QuestionMark Id(b) Colon Id(c) QuestionMark Id(d) Colon Id(e)'') 0
          = Inr (Select (Select (Val (IdPlace ''a'')) (Val (IdPlace ''b'')) (Val (IdPlace ''c'')))
                   (Val (IdPlace ''d'')) (Val (IdPlace ''e'')), 9)"
proof -
  have step: "parse_exp_loop (Suc n) guard ts p1 = parse_exp_loop n (Select guard tt ff) ts p3"
    by (simp add: parse_exp_loop_Suc q check_advance [OF q] t check_consume [OF c] f)
  from parse_exp1_fuel [OF g, of 1] have g': "parse_exp1 (Suc n) ts pos = Inr (guard, p1)"
    by simp
  have whole: "parse_exp (Suc (Suc n)) ts pos = parse_exp_loop n (Select guard tt ff) ts p3"
    by (simp add: parse_exp_Suc [of "Suc n"] g' step)
  have fin: "\<not> check ts p3 ''QuestionMark'' \<longrightarrow>
            parse_exp (Suc (Suc (Suc n))) ts pos = Inr (Select guard tt ff, p3)"
  proof
    assume nq: "\<not> check ts p3 ''QuestionMark''"
    from parse_exp1_fuel [OF g, of 2] have g2: "parse_exp1 (Suc (Suc n)) ts pos = Inr (guard, p1)"
      by simp
    from parse_exp_fuel [OF t, of 1] have t1: "parse_exp (Suc n) ts (Suc p1) = Inr (tt, p2)"
      by simp
    from parse_exp1_fuel [OF f, of 1] have f1: "parse_exp1 (Suc n) ts (Suc p2) = Inr (ff, p3)"
      by simp
    have "parse_exp_loop (Suc (Suc n)) guard ts p1
          = parse_exp_loop (Suc n) (Select guard tt ff) ts p3"
      by (simp add: parse_exp_loop_Suc [of "Suc n"] q check_advance [OF q] t1
          check_consume [OF c] f1)
    also have "\<dots> = Inr (Select guard tt ff, p3)"
      using nq by (rule parse_exp_loop_done)
    finally show "parse_exp (Suc (Suc (Suc n))) ts pos = Inr (Select guard tt ff, p3)"
      by (simp add: parse_exp_Suc [of "Suc (Suc n)"] g2)
  qed
  have ex: "parse_exp 30
            (tokenize_input ''Id(a) QuestionMark Id(b) QuestionMark Id(c) Colon Id(d) Colon Id(e)'') 0
          = Inr (Select (Val (IdPlace ''a''))
                   (Select (Val (IdPlace ''b'')) (Val (IdPlace ''c'')) (Val (IdPlace ''d'')))
                   (Val (IdPlace ''e'')), 9)"
    by code_simp
  have ex2: "parse_exp 30
            (tokenize_input ''Id(a) QuestionMark Id(b) Colon Id(c) QuestionMark Id(d) Colon Id(e)'') 0
          = Inr (Select (Select (Val (IdPlace ''a'')) (Val (IdPlace ''b'')) (Val (IdPlace ''c'')))
                   (Val (IdPlace ''d'')) (Val (IdPlace ''e'')), 9)"
    by code_simp
  from step whole fin ex ex2 show ?thesis by (intro conjI)
qed

theorem ternary_arms_witness:
  "parse_exp1 20
     (tokenize_input ''Id(a) QuestionMark Id(b) QuestionMark Id(c) Colon Id(d) Colon Id(e)'') 0
     = Inr (Val (IdPlace ''a''), 1)
   \<and> check (tokenize_input ''Id(a) QuestionMark Id(b) QuestionMark Id(c) Colon Id(d) Colon Id(e)'')
        1 ''QuestionMark''
   \<and> parse_exp 20
        (tokenize_input ''Id(a) QuestionMark Id(b) QuestionMark Id(c) Colon Id(d) Colon Id(e)'')
        (Suc 1)
       = Inr (Select (Val (IdPlace ''b'')) (Val (IdPlace ''c'')) (Val (IdPlace ''d'')), 7)
   \<and> check (tokenize_input ''Id(a) QuestionMark Id(b) QuestionMark Id(c) Colon Id(d) Colon Id(e)'')
        7 ''Colon''
   \<and> parse_exp1 20
        (tokenize_input ''Id(a) QuestionMark Id(b) QuestionMark Id(c) Colon Id(d) Colon Id(e)'')
        (Suc 7)
       = Inr (Val (IdPlace ''e''), 9)
   \<and> \<not> check (tokenize_input ''Id(a) QuestionMark Id(b) QuestionMark Id(c) Colon Id(d) Colon Id(e)'')
        9 ''QuestionMark''
   \<and> parse_exp (Suc (Suc (Suc 20)))
        (tokenize_input ''Id(a) QuestionMark Id(b) QuestionMark Id(c) Colon Id(d) Colon Id(e)'') 0
       = Inr (Select (Val (IdPlace ''a''))
                (Select (Val (IdPlace ''b'')) (Val (IdPlace ''c'')) (Val (IdPlace ''d'')))
                (Val (IdPlace ''e'')), 9)"
proof -
  let ?ts = "tokenize_input ''Id(a) QuestionMark Id(b) QuestionMark Id(c) Colon Id(d) Colon Id(e)''"
  have g: "parse_exp1 20 ?ts 0 = Inr (Val (IdPlace ''a''), 1)" by code_simp
  have q: "check ?ts 1 ''QuestionMark''" by code_simp
  have t: "parse_exp 20 ?ts (Suc 1)
           = Inr (Select (Val (IdPlace ''b'')) (Val (IdPlace ''c'')) (Val (IdPlace ''d'')), 7)"
    by code_simp
  have c: "check ?ts 7 ''Colon''" by code_simp
  have f: "parse_exp1 20 ?ts (Suc 7) = Inr (Val (IdPlace ''e''), 9)" by code_simp
  have nq: "\<not> check ?ts 9 ''QuestionMark''" by code_simp
  from ternary_arms [OF g q t c f] nq
  have "parse_exp (Suc (Suc (Suc 20))) ?ts 0
       = Inr (Select (Val (IdPlace ''a''))
                (Select (Val (IdPlace ''b'')) (Val (IdPlace ''c'')) (Val (IdPlace ''d'')))
                (Val (IdPlace ''e'')), 9)"
    by blast
  with g q t c f nq show ?thesis by (intro conjI)
qed

subsection \<open>Statements\<close>

lemma consume_Inr:
  "consume ts pos ty (unexpected_token ts pos) = Inr (tok, p') \<Longrightarrow>
   check ts pos ty \<and> p' = Suc pos \<and> tok = ts ! pos"
  by (auto simp: consume_def unexpected_token_def peek_def check_def is_at_end_def advance_def
      previous_def error_def bind_res_def split: if_splits sum.splits)

lemma advance_Inr:
  "check ts pos ty \<Longrightarrow> advance ts pos = Inr (tok, p') \<Longrightarrow> p' = Suc pos \<and> tok = ts ! pos"
  by (simp add: check_advance)

lemma parse_if_stmt_shape:
  "parse_if_stmt k ts pos = Inr (s, p) \<Longrightarrow> \<exists>guard tt ff. s = IfStmt guard tt ff"
  by (cases k)
    (auto simp: parse_if_stmt_0 parse_if_stmt_Suc bind_res_eq_Inr split: if_splits prod.splits)

lemma parse_while_stmt_shape:
  "parse_while_stmt k ts pos = Inr (s, p) \<Longrightarrow> \<exists>guard body. s = While guard body"
  by (cases k)
    (auto simp: parse_while_stmt_0 parse_while_stmt_Suc bind_res_eq_Inr split: prod.splits)

lemma parse_return_stmt_shape:
  "parse_return_stmt k ts pos = Inr (s, p) \<Longrightarrow> \<exists>e. s = Return e"
  by (cases k)
    (auto simp: parse_return_stmt_0 parse_return_stmt_Suc bind_res_eq_Inr split: prod.splits)

lemma parse_stmt_exp_branch:
  assumes "\<not> check ts pos ''If''" "\<not> check ts pos ''While''" "\<not> check ts pos ''Return''"
    "\<not> check ts pos ''Break''" "\<not> check ts pos ''Continue''"
  shows "parse_stmt (Suc n) ts pos =
     bind_res (peek ts pos) (\<lambda>start_token.
     bind_res (parse_exp n ts pos) (\<lambda>(left_exp, p1). exp_stmt_tail n ts start_token left_exp p1))"
  using assms by (simp add: parse_stmt_Suc exp_stmt_tail_def)

lemma exp_stmt_tail_Assign:
  assumes "exp_stmt_tail n ts start_token left_exp p1 = Inr (Assign place rhs, p')"
  shows "left_exp = Val place \<and> check ts p1 ''Gets''
         \<and> (\<exists>p3. parse_exp n ts (Suc p1) = Inr (rhs, p3) \<and> check ts p3 ''Semicolon''
                  \<and> p' = Suc p3)"
proof (cases "check ts p1 ''Gets''")
  case True
  from assms True obtain right_exp p3 tok p4
    where r: "parse_exp n ts (Suc p1) = Inr (right_exp, p3)"
      and c: "consume ts p3 ''Semicolon'' (unexpected_token ts p3) = Inr (tok, p4)"
      and k: "(case left_exp of Val place \<Rightarrow> Inr (Assign place right_exp, p4)
               | _ \<Rightarrow> error (''left-hand side of assignment must be a place, starting at token ''
                         @ to_string (tindex start_token))) = Inr (Assign place rhs, p')"
    by (auto simp: exp_stmt_tail_def check_advance bind_res_eq_Inr)
  from k have "left_exp = Val place \<and> right_exp = rhs \<and> p4 = p'"
    by (cases left_exp) (simp_all add: error_def)
  with r consume_Inr [OF c] True show ?thesis by auto
next
  case False
  with assms obtain tok p2
    where k: "(case left_exp of CallExp fc \<Rightarrow> Inr (CallStmt fc, p2)
               | _ \<Rightarrow> error (''standalone expressions must be function calls, starting at token ''
                         @ to_string (tindex start_token))) = Inr (Assign place rhs, p')"
    by (auto simp: exp_stmt_tail_def bind_res_eq_Inr)
  then have False by (cases left_exp) (simp_all add: error_def)
  then show ?thesis ..
qed

lemma exp_stmt_tail_CallStmt:
  assumes "exp_stmt_tail n ts start_token left_exp p1 = Inr (CallStmt fc, p')"
  shows "left_exp = CallExp fc \<and> \<not> check ts p1 ''Gets'' \<and> check ts p1 ''Semicolon''
         \<and> p' = Suc p1"
proof (cases "check ts p1 ''Gets''")
  case True
  from assms True obtain right_exp p3 tok p4
    where k: "(case left_exp of Val place \<Rightarrow> Inr (Assign place right_exp, p4)
               | _ \<Rightarrow> error (''left-hand side of assignment must be a place, starting at token ''
                         @ to_string (tindex start_token))) = Inr (CallStmt fc, p')"
    by (auto simp: exp_stmt_tail_def check_advance bind_res_eq_Inr)
  then have False by (cases left_exp) (simp_all add: error_def)
  then show ?thesis ..
next
  case False
  with assms obtain tok p2
    where c: "consume ts p1 ''Semicolon'' (unexpected_token ts p1) = Inr (tok, p2)"
      and k: "(case left_exp of CallExp fc \<Rightarrow> Inr (CallStmt fc, p2)
               | _ \<Rightarrow> error (''standalone expressions must be function calls, starting at token ''
                         @ to_string (tindex start_token))) = Inr (CallStmt fc, p')"
    by (auto simp: exp_stmt_tail_def bind_res_eq_Inr)
  from k have "left_exp = CallExp fc \<and> p2 = p'"
    by (cases left_exp) (simp_all add: error_def)
  with consume_Inr [OF c] False show ?thesis by auto
qed

lemma parse_stmt_keyword_shape:
  assumes "parse_stmt (Suc k) ts pos = Inr (s, p')"
      and "check ts pos ''If'' \<or> check ts pos ''While'' \<or> check ts pos ''Return''
           \<or> check ts pos ''Break'' \<or> check ts pos ''Continue''"
  shows "(\<exists>guard tt ff. s = IfStmt guard tt ff) \<or> (\<exists>guard body. s = While guard body)
         \<or> (\<exists>e. s = Return e) \<or> s = Break \<or> s = Continue"
proof (cases "check ts pos ''If''")
  case True
  with assms(1) have "parse_if_stmt k ts pos = Inr (s, p')" by (simp add: parse_stmt_Suc)
  from parse_if_stmt_shape [OF this] show ?thesis by blast
next
  case nif: False
  show ?thesis
  proof (cases "check ts pos ''While''")
    case True
    with nif assms(1) have "parse_while_stmt k ts pos = Inr (s, p')"
      by (simp add: parse_stmt_Suc)
    from parse_while_stmt_shape [OF this] show ?thesis by blast
  next
    case nwh: False
    show ?thesis
    proof (cases "check ts pos ''Return''")
      case True
      with nif nwh assms(1) have "parse_return_stmt k ts pos = Inr (s, p')"
        by (simp add: parse_stmt_Suc)
      from parse_return_stmt_shape [OF this] show ?thesis by blast
    next
      case nre: False
      show ?thesis
      proof (cases "check ts pos ''Break''")
        case True
        with nif nwh nre assms(1) have "s = Break"
          by (auto simp: parse_stmt_Suc bind_res_eq_Inr)
        then show ?thesis by simp
      next
        case nbr: False
        with nif nwh nre assms(2) have "check ts pos ''Continue''" by simp
        with nif nwh nre nbr assms(1) have "s = Continue"
          by (auto simp: parse_stmt_Suc bind_res_eq_Inr)
        then show ?thesis by simp
      qed
    qed
  qed
qed

lemma parse_stmt_exp_tail:
  assumes "parse_stmt m ts pos = Inr (s, p')"
      and "(\<exists>place rhs. s = Assign place rhs) \<or> (\<exists>fc. s = CallStmt fc)"
  shows "\<exists>k left_exp p1. m = Suc k \<and> pos < length ts \<and> parse_exp k ts pos = Inr (left_exp, p1)
            \<and> exp_stmt_tail k ts (ts ! pos) left_exp p1 = Inr (s, p')"
proof (cases m)
  case 0
  with assms(1) show ?thesis by (simp add: parse_stmt_0)
next
  case (Suc k)
  have nk: "\<not> (check ts pos ''If'' \<or> check ts pos ''While'' \<or> check ts pos ''Return''
           \<or> check ts pos ''Break'' \<or> check ts pos ''Continue'')"
  proof
    assume "check ts pos ''If'' \<or> check ts pos ''While'' \<or> check ts pos ''Return''
           \<or> check ts pos ''Break'' \<or> check ts pos ''Continue''"
    from parse_stmt_keyword_shape [OF assms(1) [unfolded Suc] this] assms(2)
    show False by auto
  qed
  then have "parse_stmt (Suc k) ts pos =
     bind_res (peek ts pos) (\<lambda>start_token.
     bind_res (parse_exp k ts pos) (\<lambda>(left_exp, p1). exp_stmt_tail k ts start_token left_exp p1))"
    by (intro parse_stmt_exp_branch) simp_all
  with assms(1) Suc obtain start_token left_exp p1
    where pk: "peek ts pos = Inr start_token"
      and pe: "parse_exp k ts pos = Inr (left_exp, p1)"
      and tl: "exp_stmt_tail k ts start_token left_exp p1 = Inr (s, p')"
    by (auto simp: bind_res_eq_Inr)
  from pk have "pos < length ts \<and> start_token = ts ! pos"
    by (auto simp: peek_def is_at_end_def error_def split: if_splits)
  with Suc pe tl show ?thesis by auto
qed

lemma parse_stmt_Assign:
  assumes "parse_stmt m ts pos = Inr (Assign place rhs, p')"
  shows "\<exists>k q1 q3. parse_exp k ts pos = Inr (Val place, q1) \<and> check ts q1 ''Gets''
            \<and> parse_exp k ts (Suc q1) = Inr (rhs, q3) \<and> check ts q3 ''Semicolon''
            \<and> p' = Suc q3"
proof -
  from parse_stmt_exp_tail [OF assms] obtain k left_exp p1
    where pe: "parse_exp k ts pos = Inr (left_exp, p1)"
      and tl: "exp_stmt_tail k ts (ts ! pos) left_exp p1 = Inr (Assign place rhs, p')"
    by auto
  from exp_stmt_tail_Assign [OF tl] pe show ?thesis by auto
qed

lemma parse_stmt_CallStmt:
  assumes "parse_stmt m ts pos = Inr (CallStmt fc, p')"
  shows "\<exists>k q1. parse_exp k ts pos = Inr (CallExp fc, q1) \<and> \<not> check ts q1 ''Gets''
            \<and> check ts q1 ''Semicolon'' \<and> p' = Suc q1"
proof -
  from parse_stmt_exp_tail [OF assms] obtain k left_exp p1
    where pe: "parse_exp k ts pos = Inr (left_exp, p1)"
      and tl: "exp_stmt_tail k ts (ts ! pos) left_exp p1 = Inr (CallStmt fc, p')"
    by auto
  from exp_stmt_tail_CallStmt [OF tl] pe show ?thesis by auto
qed

lemma check_at_end: "length ts \<le> pos \<Longrightarrow> \<not> check ts pos ty"
  by (simp add: check_def is_at_end_def)

lemma check_any_at_end: "length ts \<le> pos \<Longrightarrow> \<not> check_any ts pos tys"
  by (simp add: check_any_def is_at_end_def)

lemma parse_exp7_at_end: "length ts \<le> pos \<Longrightarrow> parse_exp7 n ts pos \<noteq> Inr r"
  by (cases n)
    (simp_all add: parse_exp7_0 parse_exp7_Suc check_at_end unexpected_token_def peek_def
      is_at_end_def error_def)

lemma parse_exp6_at_end: "length ts \<le> pos \<Longrightarrow> parse_exp6 n ts pos \<noteq> Inr r"
  by (cases n) (auto simp: parse_exp6_0 parse_exp6_Suc bind_res_eq_Inr parse_exp7_at_end)

lemma parse_exp5_at_end: "length ts \<le> pos \<Longrightarrow> parse_exp5 n ts pos \<noteq> Inr r"
  by (cases n) (simp_all add: parse_exp5_0 parse_exp5_Suc check_any_at_end parse_exp6_at_end)

lemma parse_exp4_at_end: "length ts \<le> pos \<Longrightarrow> parse_exp4 n ts pos \<noteq> Inr r"
  by (cases n) (auto simp: parse_exp4_0 parse_exp4_Suc bind_res_eq_Inr parse_exp5_at_end)

lemma parse_exp3_at_end: "length ts \<le> pos \<Longrightarrow> parse_exp3 n ts pos \<noteq> Inr r"
  by (cases n) (auto simp: parse_exp3_0 parse_exp3_Suc bind_res_eq_Inr parse_exp4_at_end)

lemma parse_exp2_at_end: "length ts \<le> pos \<Longrightarrow> parse_exp2 n ts pos \<noteq> Inr r"
  by (cases n) (auto simp: parse_exp2_0 parse_exp2_Suc bind_res_eq_Inr parse_exp3_at_end)

lemma parse_exp1_at_end: "length ts \<le> pos \<Longrightarrow> parse_exp1 n ts pos \<noteq> Inr r"
  by (cases n) (auto simp: parse_exp1_0 parse_exp1_Suc bind_res_eq_Inr parse_exp2_at_end)

lemma parse_exp_at_end: "length ts \<le> pos \<Longrightarrow> parse_exp n ts pos \<noteq> Inr r"
  by (cases n) (auto simp: parse_exp_0 parse_exp_Suc bind_res_eq_Inr parse_exp1_at_end)

text \<open>
  Claim C1.  In a statement that starts with none of \<^verbatim>\<open>if\<close>, \<^verbatim>\<open>while\<close>, \<^verbatim>\<open>return\<close>, \<^verbatim>\<open>break\<close>,
  \<^verbatim>\<open>continue\<close>, with the expression \<open>left_exp\<close> parsed first:  if \<^verbatim>\<open>= rhs ;\<close> follows, the
  result is \<open>Assign place rhs\<close> when \<open>left_exp\<close> is \<open>Val place\<close>, and otherwise the error
  \<^verbatim>\<open>left-hand side of assignment must be a place, starting at token <i>\<close>;  if \<^verbatim>\<open>;\<close>
  follows, the result is \<open>CallStmt fc\<close> when \<open>left_exp\<close> is \<open>CallExp fc\<close>, and otherwise the
  error \<^verbatim>\<open>standalone expressions must be function calls, starting at token <i>\<close>; \<open>i\<close> is
  the index carried by the first token of the statement.  Conversely every \<open>Assign\<close> that
  \<^verbatim>\<open>parse_stmt\<close> returns has the place of a \<open>Val\<close> node that \<^verbatim>\<open>parse_exp\<close> returned at the start
  of the statement, which is one of the four kinds of place, and every \<open>CallStmt\<close> has
  the call of a \<open>CallExp\<close> node parsed there.
\<close>

theorem stmt_place_or_call:
  assumes nk: "\<not> check ts pos ''If''" "\<not> check ts pos ''While''" "\<not> check ts pos ''Return''"
    "\<not> check ts pos ''Break''" "\<not> check ts pos ''Continue''"
      and l: "parse_exp n ts pos = Inr (left_exp, p1)"
  shows "(check ts p1 ''Gets'' \<and> parse_exp n ts (Suc p1) = Inr (right_exp, p3)
            \<and> check ts p3 ''Semicolon'' \<longrightarrow>
          parse_stmt (Suc n) ts pos =
            (case left_exp of
               Val place \<Rightarrow> Inr (Assign place right_exp, Suc p3)
             | _ \<Rightarrow> Inl (ParseError
                  (''parse error: left-hand side of assignment must be a place, starting at token ''
                   @ to_string (tindex (ts ! pos))))))
       \<and> (\<not> check ts p1 ''Gets'' \<and> check ts p1 ''Semicolon'' \<longrightarrow>
          parse_stmt (Suc n) ts pos =
            (case left_exp of
               CallExp fc \<Rightarrow> Inr (CallStmt fc, Suc p1)
             | _ \<Rightarrow> Inl (ParseError
                  (''parse error: standalone expressions must be function calls, starting at token ''
                   @ to_string (tindex (ts ! pos))))))
       \<and> (\<forall>m us q place rhs p'. parse_stmt m us q = Inr (Assign place rhs, p') \<longrightarrow>
            (\<exists>k q1 q3. parse_exp k us q = Inr (Val place, q1) \<and> check us q1 ''Gets''
                \<and> parse_exp k us (Suc q1) = Inr (rhs, q3) \<and> check us q3 ''Semicolon''
                \<and> p' = Suc q3)
            \<and> ((\<exists>name. place = IdPlace name) \<or> (\<exists>e. place = Deref e)
                \<or> (\<exists>array index. place = ArrayAccess array index)
                \<or> (\<exists>ptr field. place = FieldAccess ptr field)))
       \<and> (\<forall>m us q fc p'. parse_stmt m us q = Inr (CallStmt fc, p') \<longrightarrow>
            (\<exists>k q1. parse_exp k us q = Inr (CallExp fc, q1) \<and> \<not> check us q1 ''Gets''
                \<and> check us q1 ''Semicolon'' \<and> p' = Suc q1))"
proof -
  have notend: "pos < length ts"
    using l parse_exp_at_end [of ts pos n "(left_exp, p1)"] by (cases "pos < length ts") simp_all
  then have pk: "peek ts pos = Inr (ts ! pos)" by (simp add: peek_def is_at_end_def)
  from nk have "parse_stmt (Suc n) ts pos =
     bind_res (peek ts pos) (\<lambda>start_token.
     bind_res (parse_exp n ts pos) (\<lambda>(left_exp, p1). exp_stmt_tail n ts start_token left_exp p1))"
    by (rule parse_stmt_exp_branch)
  with pk l have ps: "parse_stmt (Suc n) ts pos = exp_stmt_tail n ts (ts ! pos) left_exp p1"
    by simp
  have a: "check ts p1 ''Gets'' \<and> parse_exp n ts (Suc p1) = Inr (right_exp, p3)
            \<and> check ts p3 ''Semicolon'' \<longrightarrow>
          parse_stmt (Suc n) ts pos =
            (case left_exp of
               Val place \<Rightarrow> Inr (Assign place right_exp, Suc p3)
             | _ \<Rightarrow> Inl (ParseError
                  (''parse error: left-hand side of assignment must be a place, starting at token ''
                   @ to_string (tindex (ts ! pos)))))"
  proof
    assume h: "check ts p1 ''Gets'' \<and> parse_exp n ts (Suc p1) = Inr (right_exp, p3)
            \<and> check ts p3 ''Semicolon''"
    then have g: "check ts p1 ''Gets''" and r: "parse_exp n ts (Suc p1) = Inr (right_exp, p3)"
      and s: "check ts p3 ''Semicolon''" by simp_all
    show "parse_stmt (Suc n) ts pos =
            (case left_exp of
               Val place \<Rightarrow> Inr (Assign place right_exp, Suc p3)
             | _ \<Rightarrow> Inl (ParseError
                  (''parse error: left-hand side of assignment must be a place, starting at token ''
                   @ to_string (tindex (ts ! pos)))))"
      unfolding ps
      by (cases left_exp)
        (simp_all add: exp_stmt_tail_def g check_advance [OF g] r check_consume [OF s] error_def)
  qed
  have b: "\<not> check ts p1 ''Gets'' \<and> check ts p1 ''Semicolon'' \<longrightarrow>
          parse_stmt (Suc n) ts pos =
            (case left_exp of
               CallExp fc \<Rightarrow> Inr (CallStmt fc, Suc p1)
             | _ \<Rightarrow> Inl (ParseError
                  (''parse error: standalone expressions must be function calls, starting at token ''
                   @ to_string (tindex (ts ! pos)))))"
  proof
    assume h: "\<not> check ts p1 ''Gets'' \<and> check ts p1 ''Semicolon''"
    then have g: "\<not> check ts p1 ''Gets''" and s: "check ts p1 ''Semicolon''" by simp_all
    show "parse_stmt (Suc n) ts pos =
            (case left_exp of
               CallExp fc \<Rightarrow> Inr (CallStmt fc, Suc p1)
             | _ \<Rightarrow> Inl (ParseError
                  (''parse error: standalone expressions must be function calls, starting at token ''
                   @ to_string (tindex (ts ! pos)))))"
      unfolding ps
      by (cases left_exp)
        (simp_all add: exp_stmt_tail_def g check_consume [OF s] error_def)
  qed
  have c: "\<forall>m us q place rhs p'. parse_stmt m us q = Inr (Assign place rhs, p') \<longrightarrow>
            (\<exists>k q1 q3. parse_exp k us q = Inr (Val place, q1) \<and> check us q1 ''Gets''
                \<and> parse_exp k us (Suc q1) = Inr (rhs, q3) \<and> check us q3 ''Semicolon''
                \<and> p' = Suc q3)
            \<and> ((\<exists>name. place = IdPlace name) \<or> (\<exists>e. place = Deref e)
                \<or> (\<exists>array index. place = ArrayAccess array index)
                \<or> (\<exists>ptr field. place = FieldAccess ptr field))"
  proof (intro allI impI conjI)
    fix m us q place rhs p'
    assume "parse_stmt m us q = Inr (Assign place rhs, p')"
    then show "\<exists>k q1 q3. parse_exp k us q = Inr (Val place, q1) \<and> check us q1 ''Gets''
                \<and> parse_exp k us (Suc q1) = Inr (rhs, q3) \<and> check us q3 ''Semicolon''
                \<and> p' = Suc q3"
      by (rule parse_stmt_Assign)
    show "(\<exists>name. place = IdPlace name) \<or> (\<exists>e. place = Deref e)
                \<or> (\<exists>array index. place = ArrayAccess array index)
                \<or> (\<exists>ptr field. place = FieldAccess ptr field)"
      by (cases place) simp_all
  qed
  have d: "\<forall>m us q fc p'. parse_stmt m us q = Inr (CallStmt fc, p') \<longrightarrow>
            (\<exists>k q1. parse_exp k us q = Inr (CallExp fc, q1) \<and> \<not> check us q1 ''Gets''
                \<and> check us q1 ''Semicolon'' \<and> p' = Suc q1)"
    using parse_stmt_CallStmt by blast
  from a b c d show ?thesis by (intro conjI)
qed

theorem stmt_place_or_call_witness:
  "parse_exp 20 (tokenize_input ''Id(x) Gets Num(1) Semicolon'') 0 = Inr (Val (IdPlace ''x''), 1)
   \<and> check (tokenize_input ''Id(x) Gets Num(1) Semicolon'') 1 ''Gets''
   \<and> parse_exp 20 (tokenize_input ''Id(x) Gets Num(1) Semicolon'') (Suc 1) = Inr (Num 1, 3)
   \<and> check (tokenize_input ''Id(x) Gets Num(1) Semicolon'') 3 ''Semicolon''
   \<and> parse_stmt (Suc 20) (tokenize_input ''Id(x) Gets Num(1) Semicolon'') 0
       = Inr (Assign (IdPlace ''x'') (Num 1), 4)
   \<and> parse_exp 20 (tokenize_input ''Id(f) OpenParen CloseParen Gets Num(1) Semicolon'') 0
       = Inr (CallExp (FunCall (Val (IdPlace ''f'')) []), 3)
   \<and> parse_stmt (Suc 20) (tokenize_input ''Id(f) OpenParen CloseParen Gets Num(1) Semicolon'') 0
       = Inl (ParseError
           ''parse error: left-hand side of assignment must be a place, starting at token 0'')"
proof -
  let ?a = "tokenize_input ''Id(x) Gets Num(1) Semicolon''"
  have k: "\<not> check ?a 0 ''If''" "\<not> check ?a 0 ''While''" "\<not> check ?a 0 ''Return''"
    "\<not> check ?a 0 ''Break''" "\<not> check ?a 0 ''Continue''"
    by code_simp+
  have l: "parse_exp 20 ?a 0 = Inr (Val (IdPlace ''x''), 1)" by code_simp
  have g: "check ?a 1 ''Gets''" by code_simp
  have r: "parse_exp 20 ?a (Suc 1) = Inr (Num 1, 3)" by code_simp
  have s: "check ?a 3 ''Semicolon''" by code_simp
  from stmt_place_or_call [OF k l, of "Num 1" 3] g r s
  have a: "parse_stmt (Suc 20) ?a 0 = Inr (Assign (IdPlace ''x'') (Num 1), 4)"
    by simp
  let ?b = "tokenize_input ''Id(f) OpenParen CloseParen Gets Num(1) Semicolon''"
  have k': "\<not> check ?b 0 ''If''" "\<not> check ?b 0 ''While''" "\<not> check ?b 0 ''Return''"
    "\<not> check ?b 0 ''Break''" "\<not> check ?b 0 ''Continue''"
    by code_simp+
  have l': "parse_exp 20 ?b 0 = Inr (CallExp (FunCall (Val (IdPlace ''f'')) []), 3)"
    by code_simp
  have g': "check ?b 3 ''Gets''" by code_simp
  have r': "parse_exp 20 ?b (Suc 3) = Inr (Num 1, 5)" by code_simp
  have s': "check ?b 5 ''Semicolon''" by code_simp
  have i: "tindex (?b ! 0) = 0" by code_simp
  have z: "to_string 0 = ''0''" by code_simp
  from stmt_place_or_call [OF k' l', of "Num 1" 5] g' r' s'
  have b: "parse_stmt (Suc 20) ?b 0
       = Inl (ParseError
           ''parse error: left-hand side of assignment must be a place, starting at token 0'')"
    by (simp add: i z)
  from l g r s a l' b show ?thesis by (intro conjI)
qed

subsection \<open>Parenthesised expressions\<close>

text \<open>
  A run of tokens is parsed in the same way when it stands between a token before it and a
  closing parenthesis after it: every check of the parser sees the same token, and where
  the run had ended a closing parenthesis is no operator, so that the loops stop there as
  they did at the end.  This is shown for each body, given it for the methods the body
  calls, and then for all methods by induction on the depth of calls.
\<close>

lemma emb_res_Inr: "emb_res (Inr (x, p)) (Inr (x, Suc p))"
  by (simp add: emb_res_def)

lemma emb_res_Inl: "emb_res (Inl e) r'"
  by (simp add: emb_res_def)

lemma emb_res_fail: "(\<And>r. m \<noteq> Inr r) \<Longrightarrow> emb_res m r'"
  by (simp add: emb_res_def)

lemma emb_res_error: "emb_res (bind_res m error) r'"
  by (cases m) (simp_all add: emb_res_def error_def)

lemma emb_res_bind:
  assumes "emb_res m m'" and "\<And>x p. emb_res (k x p) (k' x (Suc p))"
  shows "emb_res (bind_res m (case_prod k)) (bind_res m' (case_prod k'))"
proof (cases m)
  case (Inl e)
  then show ?thesis by (simp add: emb_res_def)
next
  case (Inr xp)
  obtain x p where xp: "xp = (x, p)" by (cases xp)
  from assms(1) Inr xp have "m' = Inr (x, Suc p)" by (simp add: emb_res_def)
  with Inr xp assms(2) [of x p] show ?thesis by simp
qed

lemma emb_res_bind_same:
  "(\<And>x. emb_res (k x) (k' x)) \<Longrightarrow> emb_res (bind_res m k) (bind_res m k')"
  by (cases m) (simp_all add: emb_res_def)

lemma check_emb:
  "ty \<noteq> ''CloseParen'' \<Longrightarrow> ttype rp = ''CloseParen''
   \<Longrightarrow> check (lp # ts @ [rp]) (Suc pos) ty = check ts pos ty"
  by (auto simp: check_def is_at_end_def nth_append)

lemma check_any_emb:
  "''CloseParen'' \<notin> set tys \<Longrightarrow> ttype rp = ''CloseParen''
   \<Longrightarrow> check_any (lp # ts @ [rp]) (Suc pos) tys = check_any ts pos tys"
  by (auto simp: check_any_def is_at_end_def nth_append)

lemma advance_emb:
  "pos < length ts \<Longrightarrow> advance (lp # ts @ [rp]) (Suc pos) = Inr (ts ! pos, Suc (Suc pos))"
  by (simp add: advance_def is_at_end_def previous_def nth_append)

lemma advance_in: "pos < length ts \<Longrightarrow> advance ts pos = Inr (ts ! pos, Suc pos)"
  by (simp add: advance_def is_at_end_def previous_def)

lemma emb_res_consume:
  "emb_res (consume ts pos ty (unexpected_token ts pos))
           (consume (lp # ts @ [rp]) (Suc pos) ty (unexpected_token (lp # ts @ [rp]) (Suc pos)))"
proof (cases "pos < length ts")
  case True
  then show ?thesis
    by (simp add: consume_def unexpected_token_def peek_def is_at_end_def nth_append
        advance_emb advance_in emb_res_def error_def)
next
  case False
  then show ?thesis
    by (simp add: consume_def unexpected_token_def peek_def is_at_end_def emb_res_def error_def)
qed

lemma emb_res_if_check:
  assumes "ty \<noteq> ''CloseParen''" and "ttype rp = ''CloseParen''"
    and "\<And>tok. check ts pos ty \<Longrightarrow> tok = ts ! pos \<Longrightarrow> emb_res (k tok (Suc pos)) (k' tok (Suc (Suc pos)))"
    and "\<not> check ts pos ty \<Longrightarrow> emb_res b b'"
  shows "emb_res (if check ts pos ty then bind_res (advance ts pos) (case_prod k) else b)
           (if check (lp # ts @ [rp]) (Suc pos) ty
            then bind_res (advance (lp # ts @ [rp]) (Suc pos)) (case_prod k') else b')"
proof (cases "check ts pos ty")
  case True
  then have "pos < length ts" by (simp add: check_not_at_end)
  with True assms show ?thesis by (simp add: check_emb advance_emb advance_in nth_append)
next
  case False
  with assms show ?thesis by (simp add: check_emb)
qed

lemma emb_res_if_check_any:
  assumes "''CloseParen'' \<notin> set tys" and "ttype rp = ''CloseParen''"
    and "\<And>tok. check_any ts pos tys \<Longrightarrow> tok = ts ! pos \<Longrightarrow> emb_res (k tok (Suc pos)) (k' tok (Suc (Suc pos)))"
    and "\<not> check_any ts pos tys \<Longrightarrow> emb_res b b'"
  shows "emb_res (if check_any ts pos tys then bind_res (advance ts pos) (case_prod k) else b)
           (if check_any (lp # ts @ [rp]) (Suc pos) tys
            then bind_res (advance (lp # ts @ [rp]) (Suc pos)) (case_prod k') else b')"
proof (cases "check_any ts pos tys")
  case True
  then have "pos < length ts" by (simp add: check_any_def is_at_end_def split: if_splits)
  with True assms show ?thesis by (simp add: check_any_emb advance_emb advance_in nth_append)
next
  case False
  with assms show ?thesis by (simp add: check_any_emb)
qed

lemma emb_res_if_close:
  assumes "ttype rp = ''CloseParen''"
    and "\<And>r. length ts \<le> pos \<Longrightarrow> a \<noteq> Inr r"
    and "emb_res a a'"
  shows "emb_res (if \<not> check ts pos ''CloseParen'' then a else Inr ([], pos))
           (if \<not> check (lp # ts @ [rp]) (Suc pos) ''CloseParen'' then a' else Inr ([], Suc pos))"
proof (cases "pos < length ts")
  case True
  then have "check (lp # ts @ [rp]) (Suc pos) ''CloseParen'' = check ts pos ''CloseParen''"
    by (simp add: check_def is_at_end_def nth_append)
  with assms(3) show ?thesis by (simp add: emb_res_Inr)
next
  case False
  then have "\<not> check ts pos ''CloseParen''" by (simp add: check_at_end)
  moreover from False assms(2) have "a \<noteq> Inr r" for r by simp
  ultimately show ?thesis by (simp add: emb_res_def)
qed

lemmas emb_intros =
  emb_res_bind emb_res_bind_same emb_res_if_check emb_res_if_check_any emb_res_if_close
  emb_res_consume emb_res_error emb_res_Inr

lemma parse_funtype_at_end: "length ts \<le> pos \<Longrightarrow> parse_funtype n ts pos \<noteq> Inr r"
  by (cases n)
    (simp_all add: parse_funtype_0 parse_funtype_Suc consume_def unexpected_token_def peek_def
      is_at_end_def error_def)

lemma parse_type_at_end: "length ts \<le> pos \<Longrightarrow> parse_type n ts pos \<noteq> Inr r"
  by (cases n) (simp_all add: parse_type_0 parse_type_Suc check_at_end parse_funtype_at_end)

lemma parse_type_list_at_end:
  "length ts \<le> pos \<Longrightarrow> parse_type_list n ts pos param_types \<noteq> Inr r"
  by (cases n)
    (auto simp: parse_type_list_0 parse_type_list_Suc bind_res_eq_Inr parse_type_at_end)

lemma parse_args_at_end: "length ts \<le> pos \<Longrightarrow> parse_args n ts pos args \<noteq> Inr r"
  by (cases n) (auto simp: parse_args_0 parse_args_Suc bind_res_eq_Inr parse_exp_at_end)

lemma parse_type_body_emb:
  assumes rp: "ttype rp = ''CloseParen''"
    and a: "\<And>pos. emb_res (fa ts pos) (ga (lp # ts @ [rp]) (Suc pos))"
    and b: "\<And>pos. emb_res (fb ts pos) (gb (lp # ts @ [rp]) (Suc pos))"
  shows "emb_res (parse_type_body fa fb ts pos)
           (parse_type_body ga gb (lp # ts @ [rp]) (Suc pos))"
  unfolding parse_type_body_def
  by (intro emb_intros rp a b; simp)

lemma parse_funtype_body_emb:
  assumes rp: "ttype rp = ''CloseParen''"
    and a: "\<And>pos. emb_res (fa ts pos) (ga (lp # ts @ [rp]) (Suc pos))"
    and b: "\<And>pos param_types. emb_res (fb ts pos param_types) (gb (lp # ts @ [rp]) (Suc pos) param_types)"
    and b_end: "\<And>pos param_types r. length ts \<le> pos \<Longrightarrow> fb ts pos param_types \<noteq> Inr r"
  shows "emb_res (parse_funtype_body fa fb ts pos)
           (parse_funtype_body ga gb (lp # ts @ [rp]) (Suc pos))"
  unfolding parse_funtype_body_def
  by (intro emb_intros rp a b b_end; simp)

lemma parse_type_list_body_emb:
  assumes rp: "ttype rp = ''CloseParen''"
    and a: "\<And>pos. emb_res (fa ts pos) (ga (lp # ts @ [rp]) (Suc pos))"
    and b: "\<And>pos param_types. emb_res (fb ts pos param_types) (gb (lp # ts @ [rp]) (Suc pos) param_types)"
  shows "emb_res (parse_type_list_body fa fb ts pos param_types)
           (parse_type_list_body ga gb (lp # ts @ [rp]) (Suc pos) param_types)"
  unfolding parse_type_list_body_def
  by (intro emb_intros rp a b; simp)

lemma type_emb_step:
  assumes rp: "ttype rp = ''CloseParen''"
  shows "(\<forall>pos. emb_res (parse_type n ts pos) (parse_type n (lp # ts @ [rp]) (Suc pos)))
     \<and> (\<forall>pos. emb_res (parse_funtype n ts pos) (parse_funtype n (lp # ts @ [rp]) (Suc pos)))
     \<and> (\<forall>pos param_types. emb_res (parse_type_list n ts pos param_types) (parse_type_list n (lp # ts @ [rp]) (Suc pos) param_types))"
proof (induction n)
  case 0
  show ?case by (simp add: emb_res_def parse_type_0 parse_funtype_0 parse_type_list_0)
next
  case (Suc n)
  from Suc.IH have i0: "emb_res (parse_type n ts pos) (parse_type n (lp # ts @ [rp]) (Suc pos))" for pos by simp
  from Suc.IH have i1: "emb_res (parse_funtype n ts pos) (parse_funtype n (lp # ts @ [rp]) (Suc pos))" for pos by simp
  from Suc.IH have i2: "emb_res (parse_type_list n ts pos param_types) (parse_type_list n (lp # ts @ [rp]) (Suc pos) param_types)" for pos param_types by simp
  have g0: "emb_res (parse_type (Suc n) ts pos) (parse_type (Suc n) (lp # ts @ [rp]) (Suc pos))" for pos
    unfolding parse_type_unfold by (rule parse_type_body_emb) (rule rp i0 i1)+
  have g1: "emb_res (parse_funtype (Suc n) ts pos) (parse_funtype (Suc n) (lp # ts @ [rp]) (Suc pos))" for pos
    unfolding parse_funtype_unfold by (rule parse_funtype_body_emb) (rule rp i0 i2 | erule parse_type_list_at_end)+
  have g2: "emb_res (parse_type_list (Suc n) ts pos param_types) (parse_type_list (Suc n) (lp # ts @ [rp]) (Suc pos) param_types)" for pos param_types
    unfolding parse_type_list_unfold by (rule parse_type_list_body_emb) (rule rp i0 i2)+
  show ?case
    by (intro conjI allI) (rule g0 g1 g2)+
qed

lemma parse_type_emb:
  "ttype rp = ''CloseParen'' \<Longrightarrow> emb_res (parse_type n ts pos) (parse_type n (lp # ts @ [rp]) (Suc pos))"
  using type_emb_step [where rp = rp and n = n and ts = ts and lp = lp] by simp

lemma parse_funtype_emb:
  "ttype rp = ''CloseParen'' \<Longrightarrow> emb_res (parse_funtype n ts pos) (parse_funtype n (lp # ts @ [rp]) (Suc pos))"
  using type_emb_step [where rp = rp and n = n and ts = ts and lp = lp] by simp

lemma parse_type_list_emb:
  "ttype rp = ''CloseParen'' \<Longrightarrow> emb_res (parse_type_list n ts pos param_types) (parse_type_list n (lp # ts @ [rp]) (Suc pos) param_types)"
  using type_emb_step [where rp = rp and n = n and ts = ts and lp = lp] by simp

lemma parse_exp_body_emb:
  assumes rp: "ttype rp = ''CloseParen''"
    and a: "\<And>left pos. emb_res (fa left ts pos) (ga left (lp # ts @ [rp]) (Suc pos))"
    and b: "\<And>pos. emb_res (fb ts pos) (gb (lp # ts @ [rp]) (Suc pos))"
  shows "emb_res (parse_exp_body fa fb ts pos)
           (parse_exp_body ga gb (lp # ts @ [rp]) (Suc pos))"
  unfolding parse_exp_body_def
  by (intro emb_intros rp a b; simp)

lemma parse_exp_loop_body_emb:
  assumes rp: "ttype rp = ''CloseParen''"
    and a: "\<And>pos. emb_res (fa ts pos) (ga (lp # ts @ [rp]) (Suc pos))"
    and b: "\<And>left pos. emb_res (fb left ts pos) (gb left (lp # ts @ [rp]) (Suc pos))"
    and c: "\<And>pos. emb_res (fc ts pos) (gc (lp # ts @ [rp]) (Suc pos))"
  shows "emb_res (parse_exp_loop_body fa fb fc left ts pos)
           (parse_exp_loop_body ga gb gc left (lp # ts @ [rp]) (Suc pos))"
  unfolding parse_exp_loop_body_def
  by (intro emb_intros rp a b c; simp)

lemma parse_exp1_body_emb:
  assumes rp: "ttype rp = ''CloseParen''"
    and a: "\<And>pos. emb_res (fa ts pos) (ga (lp # ts @ [rp]) (Suc pos))"
    and b: "\<And>pos. emb_res (fb ts pos) (gb (lp # ts @ [rp]) (Suc pos))"
  shows "emb_res (parse_exp1_body fa fb ts pos)
           (parse_exp1_body ga gb (lp # ts @ [rp]) (Suc pos))"
  unfolding parse_exp1_body_def
  by (intro emb_intros rp a b; simp)

lemma parse_exp2_body_emb:
  assumes rp: "ttype rp = ''CloseParen''"
    and a: "\<And>left pos. emb_res (fa left ts pos) (ga left (lp # ts @ [rp]) (Suc pos))"
    and b: "\<And>pos. emb_res (fb ts pos) (gb (lp # ts @ [rp]) (Suc pos))"
  shows "emb_res (parse_exp2_body fa fb ts pos)
           (parse_exp2_body ga gb (lp # ts @ [rp]) (Suc pos))"
  unfolding parse_exp2_body_def
  by (intro emb_intros rp a b; simp)

lemma parse_exp2_loop_body_emb:
  assumes rp: "ttype rp = ''CloseParen''"
    and a: "\<And>left pos. emb_res (fa left ts pos) (ga left (lp # ts @ [rp]) (Suc pos))"
    and b: "\<And>pos. emb_res (fb ts pos) (gb (lp # ts @ [rp]) (Suc pos))"
  shows "emb_res (parse_exp2_loop_body fa fb left ts pos)
           (parse_exp2_loop_body ga gb left (lp # ts @ [rp]) (Suc pos))"
  unfolding parse_exp2_loop_body_def
  by (intro emb_intros rp a b; simp)

lemma parse_exp3_body_emb:
  assumes rp: "ttype rp = ''CloseParen''"
    and a: "\<And>left pos. emb_res (fa left ts pos) (ga left (lp # ts @ [rp]) (Suc pos))"
    and b: "\<And>pos. emb_res (fb ts pos) (gb (lp # ts @ [rp]) (Suc pos))"
  shows "emb_res (parse_exp3_body fa fb ts pos)
           (parse_exp3_body ga gb (lp # ts @ [rp]) (Suc pos))"
  unfolding parse_exp3_body_def
  by (intro emb_intros rp a b; simp)

lemma parse_exp3_loop_body_emb:
  assumes rp: "ttype rp = ''CloseParen''"
    and a: "\<And>left pos. emb_res (fa left ts pos) (ga left (lp # ts @ [rp]) (Suc pos))"
    and b: "\<And>pos. emb_res (fb ts pos) (gb (lp # ts @ [rp]) (Suc pos))"
  shows "emb_res (parse_exp3_loop_body fa fb left ts pos)
           (parse_exp3_loop_body ga gb left (lp # ts @ [rp]) (Suc pos))"
  unfolding parse_exp3_loop_body_def
  by (intro emb_intros rp a b; simp)

lemma parse_exp4_body_emb:
  assumes rp: "ttype rp = ''CloseParen''"
    and a: "\<And>left pos. emb_res (fa left ts pos) (ga left (lp # ts @ [rp]) (Suc pos))"
    and b: "\<And>pos. emb_res (fb ts pos) (gb (lp # ts @ [rp]) (Suc pos))"
  shows "emb_res (parse_exp4_body fa fb ts pos)
           (parse_exp4_body ga gb (lp # ts @ [rp]) (Suc pos))"
  unfolding parse_exp4_body_def
  by (intro emb_intros rp a b; simp)

lemma parse_exp4_loop_body_emb:
  assumes rp: "ttype rp = ''CloseParen''"
    and a: "\<And>left pos. emb_res (fa left ts pos) (ga left (lp # ts @ [rp]) (Suc pos))"
    and b: "\<And>pos. emb_res (fb ts pos) (gb (lp # ts @ [rp]) (Suc pos))"
  shows "emb_res (parse_exp4_loop_body fa fb left ts pos)
           (parse_exp4_loop_body ga gb left (lp # ts @ [rp]) (Suc pos))"
  unfolding parse_exp4_loop_body_def
  by (intro emb_intros rp a b; simp)

lemma parse_exp5_body_emb:
  assumes rp: "ttype rp = ''CloseParen''"
    and a: "\<And>pos. emb_res (fa ts pos) (ga (lp # ts @ [rp]) (Suc pos))"
    and b: "\<And>pos. emb_res (fb ts pos) (gb (lp # ts @ [rp]) (Suc pos))"
  shows "emb_res (parse_exp5_body fa fb ts pos)
           (parse_exp5_body ga gb (lp # ts @ [rp]) (Suc pos))"
  unfolding parse_exp5_body_def
  by (intro emb_intros rp a b; simp)

lemma parse_exp6_body_emb:
  assumes rp: "ttype rp = ''CloseParen''"
    and a: "\<And>exp pos. emb_res (fa exp ts pos) (ga exp (lp # ts @ [rp]) (Suc pos))"
    and b: "\<And>pos. emb_res (fb ts pos) (gb (lp # ts @ [rp]) (Suc pos))"
  shows "emb_res (parse_exp6_body fa fb ts pos)
           (parse_exp6_body ga gb (lp # ts @ [rp]) (Suc pos))"
  unfolding parse_exp6_body_def
  by (intro emb_intros rp a b; simp)

lemma parse_exp6_loop_body_emb:
  assumes rp: "ttype rp = ''CloseParen''"
    and a: "\<And>pos. emb_res (fa ts pos) (ga (lp # ts @ [rp]) (Suc pos))"
    and b: "\<And>exp pos. emb_res (fb exp ts pos) (gb exp (lp # ts @ [rp]) (Suc pos))"
    and c: "\<And>pos args. emb_res (fc ts pos args) (gc (lp # ts @ [rp]) (Suc pos) args)"
    and c_end: "\<And>pos args r. length ts \<le> pos \<Longrightarrow> fc ts pos args \<noteq> Inr r"
  shows "emb_res (parse_exp6_loop_body fa fb fc exp ts pos)
           (parse_exp6_loop_body ga gb gc exp (lp # ts @ [rp]) (Suc pos))"
  unfolding parse_exp6_loop_body_def
  by (intro emb_intros rp a b c c_end; simp)

lemma parse_args_body_emb:
  assumes rp: "ttype rp = ''CloseParen''"
    and a: "\<And>pos. emb_res (fa ts pos) (ga (lp # ts @ [rp]) (Suc pos))"
    and b: "\<And>pos args. emb_res (fb ts pos args) (gb (lp # ts @ [rp]) (Suc pos) args)"
  shows "emb_res (parse_args_body fa fb ts pos args)
           (parse_args_body ga gb (lp # ts @ [rp]) (Suc pos) args)"
  unfolding parse_args_body_def
  by (intro emb_intros rp a b; simp)

lemma parse_exp7_body_emb:
  assumes rp: "ttype rp = ''CloseParen''"
    and a: "\<And>pos. emb_res (fa ts pos) (ga (lp # ts @ [rp]) (Suc pos))"
    and t: "\<And>pos. emb_res (parse_type n ts pos) (parse_type n (lp # ts @ [rp]) (Suc pos))"
  shows "emb_res (parse_exp7_body n fa ts pos)
           (parse_exp7_body n ga (lp # ts @ [rp]) (Suc pos))"
  unfolding parse_exp7_body_def
  by (intro emb_intros rp a t; simp)

lemma exp_emb_step:
  assumes rp: "ttype rp = ''CloseParen''"
  shows "(\<forall>pos. emb_res (parse_exp n ts pos) (parse_exp n (lp # ts @ [rp]) (Suc pos)))
     \<and> (\<forall>left pos. emb_res (parse_exp_loop n left ts pos) (parse_exp_loop n left (lp # ts @ [rp]) (Suc pos)))
     \<and> (\<forall>pos. emb_res (parse_exp1 n ts pos) (parse_exp1 n (lp # ts @ [rp]) (Suc pos)))
     \<and> (\<forall>pos. emb_res (parse_exp2 n ts pos) (parse_exp2 n (lp # ts @ [rp]) (Suc pos)))
     \<and> (\<forall>left pos. emb_res (parse_exp2_loop n left ts pos) (parse_exp2_loop n left (lp # ts @ [rp]) (Suc pos)))
     \<and> (\<forall>pos. emb_res (parse_exp3 n ts pos) (parse_exp3 n (lp # ts @ [rp]) (Suc pos)))
     \<and> (\<forall>left pos. emb_res (parse_exp3_loop n left ts pos) (parse_exp3_loop n left (lp # ts @ [rp]) (Suc pos)))
     \<and> (\<forall>pos. emb_res (parse_exp4 n ts pos) (parse_exp4 n (lp # ts @ [rp]) (Suc pos)))
     \<and> (\<forall>left pos. emb_res (parse_exp4_loop n left ts pos) (parse_exp4_loop n left (lp # ts @ [rp]) (Suc pos)))
     \<and> (\<forall>pos. emb_res (parse_exp5 n ts pos) (parse_exp5 n (lp # ts @ [rp]) (Suc pos)))
     \<and> (\<forall>pos. emb_res (parse_exp6 n ts pos) (parse_exp6 n (lp # ts @ [rp]) (Suc pos)))
     \<and> (\<forall>exp pos. emb_res (parse_exp6_loop n exp ts pos) (parse_exp6_loop n exp (lp # ts @ [rp]) (Suc pos)))
     \<and> (\<forall>pos args. emb_res (parse_args n ts pos args) (parse_args n (lp # ts @ [rp]) (Suc pos) args))
     \<and> (\<forall>pos. emb_res (parse_exp7 n ts pos) (parse_exp7 n (lp # ts @ [rp]) (Suc pos)))"
proof (induction n)
  case 0
  show ?case by (simp add: emb_res_def parse_exp_0 parse_exp_loop_0 parse_exp1_0 parse_exp2_0 parse_exp2_loop_0 parse_exp3_0 parse_exp3_loop_0 parse_exp4_0 parse_exp4_loop_0 parse_exp5_0 parse_exp6_0 parse_exp6_loop_0 parse_args_0 parse_exp7_0)
next
  case (Suc n)
  from Suc.IH have i0: "emb_res (parse_exp n ts pos) (parse_exp n (lp # ts @ [rp]) (Suc pos))" for pos by simp
  from Suc.IH have i1: "emb_res (parse_exp_loop n left ts pos) (parse_exp_loop n left (lp # ts @ [rp]) (Suc pos))" for left pos by simp
  from Suc.IH have i2: "emb_res (parse_exp1 n ts pos) (parse_exp1 n (lp # ts @ [rp]) (Suc pos))" for pos by simp
  from Suc.IH have i3: "emb_res (parse_exp2 n ts pos) (parse_exp2 n (lp # ts @ [rp]) (Suc pos))" for pos by simp
  from Suc.IH have i4: "emb_res (parse_exp2_loop n left ts pos) (parse_exp2_loop n left (lp # ts @ [rp]) (Suc pos))" for left pos by simp
  from Suc.IH have i5: "emb_res (parse_exp3 n ts pos) (parse_exp3 n (lp # ts @ [rp]) (Suc pos))" for pos by simp
  from Suc.IH have i6: "emb_res (parse_exp3_loop n left ts pos) (parse_exp3_loop n left (lp # ts @ [rp]) (Suc pos))" for left pos by simp
  from Suc.IH have i7: "emb_res (parse_exp4 n ts pos) (parse_exp4 n (lp # ts @ [rp]) (Suc pos))" for pos by simp
  from Suc.IH have i8: "emb_res (parse_exp4_loop n left ts pos) (parse_exp4_loop n left (lp # ts @ [rp]) (Suc pos))" for left pos by simp
  from Suc.IH have i9: "emb_res (parse_exp5 n ts pos) (parse_exp5 n (lp # ts @ [rp]) (Suc pos))" for pos by simp
  from Suc.IH have i10: "emb_res (parse_exp6 n ts pos) (parse_exp6 n (lp # ts @ [rp]) (Suc pos))" for pos by simp
  from Suc.IH have i11: "emb_res (parse_exp6_loop n exp ts pos) (parse_exp6_loop n exp (lp # ts @ [rp]) (Suc pos))" for exp pos by simp
  from Suc.IH have i12: "emb_res (parse_args n ts pos args) (parse_args n (lp # ts @ [rp]) (Suc pos) args)" for pos args by simp
  from Suc.IH have i13: "emb_res (parse_exp7 n ts pos) (parse_exp7 n (lp # ts @ [rp]) (Suc pos))" for pos by simp
  have g0: "emb_res (parse_exp (Suc n) ts pos) (parse_exp (Suc n) (lp # ts @ [rp]) (Suc pos))" for pos
    unfolding parse_exp_unfold by (rule parse_exp_body_emb) (rule rp i1 i2)+
  have g1: "emb_res (parse_exp_loop (Suc n) left ts pos) (parse_exp_loop (Suc n) left (lp # ts @ [rp]) (Suc pos))" for left pos
    unfolding parse_exp_loop_unfold by (rule parse_exp_loop_body_emb) (rule rp i0 i1 i2)+
  have g2: "emb_res (parse_exp1 (Suc n) ts pos) (parse_exp1 (Suc n) (lp # ts @ [rp]) (Suc pos))" for pos
    unfolding parse_exp1_unfold by (rule parse_exp1_body_emb) (rule rp i2 i3)+
  have g3: "emb_res (parse_exp2 (Suc n) ts pos) (parse_exp2 (Suc n) (lp # ts @ [rp]) (Suc pos))" for pos
    unfolding parse_exp2_unfold by (rule parse_exp2_body_emb) (rule rp i4 i5)+
  have g4: "emb_res (parse_exp2_loop (Suc n) left ts pos) (parse_exp2_loop (Suc n) left (lp # ts @ [rp]) (Suc pos))" for left pos
    unfolding parse_exp2_loop_unfold by (rule parse_exp2_loop_body_emb) (rule rp i4 i5)+
  have g5: "emb_res (parse_exp3 (Suc n) ts pos) (parse_exp3 (Suc n) (lp # ts @ [rp]) (Suc pos))" for pos
    unfolding parse_exp3_unfold by (rule parse_exp3_body_emb) (rule rp i6 i7)+
  have g6: "emb_res (parse_exp3_loop (Suc n) left ts pos) (parse_exp3_loop (Suc n) left (lp # ts @ [rp]) (Suc pos))" for left pos
    unfolding parse_exp3_loop_unfold by (rule parse_exp3_loop_body_emb) (rule rp i6 i7)+
  have g7: "emb_res (parse_exp4 (Suc n) ts pos) (parse_exp4 (Suc n) (lp # ts @ [rp]) (Suc pos))" for pos
    unfolding parse_exp4_unfold by (rule parse_exp4_body_emb) (rule rp i8 i9)+
  have g8: "emb_res (parse_exp4_loop (Suc n) left ts pos) (parse_exp4_loop (Suc n) left (lp # ts @ [rp]) (Suc pos))" for left pos
    unfolding parse_exp4_loop_unfold by (rule parse_exp4_loop_body_emb) (rule rp i8 i9)+
  have g9: "emb_res (parse_exp5 (Suc n) ts pos) (parse_exp5 (Suc n) (lp # ts @ [rp]) (Suc pos))" for pos
    unfolding parse_exp5_unfold by (rule parse_exp5_body_emb) (rule rp i9 i10)+
  have g10: "emb_res (parse_exp6 (Suc n) ts pos) (parse_exp6 (Suc n) (lp # ts @ [rp]) (Suc pos))" for pos
    unfolding parse_exp6_unfold by (rule parse_exp6_body_emb) (rule rp i11 i13)+
  have g11: "emb_res (parse_exp6_loop (Suc n) exp ts pos) (parse_exp6_loop (Suc n) exp (lp # ts @ [rp]) (Suc pos))" for exp pos
    unfolding parse_exp6_loop_unfold by (rule parse_exp6_loop_body_emb) (rule rp i0 i11 i12 | erule parse_args_at_end)+
  have g12: "emb_res (parse_args (Suc n) ts pos args) (parse_args (Suc n) (lp # ts @ [rp]) (Suc pos) args)" for pos args
    unfolding parse_args_unfold by (rule parse_args_body_emb) (rule rp i0 i12)+
  have g13: "emb_res (parse_exp7 (Suc n) ts pos) (parse_exp7 (Suc n) (lp # ts @ [rp]) (Suc pos))" for pos
    unfolding parse_exp7_unfold by (rule parse_exp7_body_emb) (rule rp i0 parse_type_emb)+
  show ?case
    by (intro conjI allI) (rule g0 g1 g2 g3 g4 g5 g6 g7 g8 g9 g10 g11 g12 g13)+
qed

lemma parse_exp_emb:
  "ttype rp = ''CloseParen'' \<Longrightarrow> emb_res (parse_exp n ts pos) (parse_exp n (lp # ts @ [rp]) (Suc pos))"
  using exp_emb_step [where rp = rp and n = n and ts = ts and lp = lp] by simp

lemma parse_exp_loop_emb:
  "ttype rp = ''CloseParen'' \<Longrightarrow> emb_res (parse_exp_loop n left ts pos) (parse_exp_loop n left (lp # ts @ [rp]) (Suc pos))"
  using exp_emb_step [where rp = rp and n = n and ts = ts and lp = lp] by simp

lemma parse_exp1_emb:
  "ttype rp = ''CloseParen'' \<Longrightarrow> emb_res (parse_exp1 n ts pos) (parse_exp1 n (lp # ts @ [rp]) (Suc pos))"
  using exp_emb_step [where rp = rp and n = n and ts = ts and lp = lp] by simp

lemma parse_exp2_emb:
  "ttype rp = ''CloseParen'' \<Longrightarrow> emb_res (parse_exp2 n ts pos) (parse_exp2 n (lp # ts @ [rp]) (Suc pos))"
  using exp_emb_step [where rp = rp and n = n and ts = ts and lp = lp] by simp

lemma parse_exp2_loop_emb:
  "ttype rp = ''CloseParen'' \<Longrightarrow> emb_res (parse_exp2_loop n left ts pos) (parse_exp2_loop n left (lp # ts @ [rp]) (Suc pos))"
  using exp_emb_step [where rp = rp and n = n and ts = ts and lp = lp] by simp

lemma parse_exp3_emb:
  "ttype rp = ''CloseParen'' \<Longrightarrow> emb_res (parse_exp3 n ts pos) (parse_exp3 n (lp # ts @ [rp]) (Suc pos))"
  using exp_emb_step [where rp = rp and n = n and ts = ts and lp = lp] by simp

lemma parse_exp3_loop_emb:
  "ttype rp = ''CloseParen'' \<Longrightarrow> emb_res (parse_exp3_loop n left ts pos) (parse_exp3_loop n left (lp # ts @ [rp]) (Suc pos))"
  using exp_emb_step [where rp = rp and n = n and ts = ts and lp = lp] by simp

lemma parse_exp4_emb:
  "ttype rp = ''CloseParen'' \<Longrightarrow> emb_res (parse_exp4 n ts pos) (parse_exp4 n (lp # ts @ [rp]) (Suc pos))"
  using exp_emb_step [where rp = rp and n = n and ts = ts and lp = lp] by simp

lemma parse_exp4_loop_emb:
  "ttype rp = ''CloseParen'' \<Longrightarrow> emb_res (parse_exp4_loop n left ts pos) (parse_exp4_loop n left (lp # ts @ [rp]) (Suc pos))"
  using exp_emb_step [where rp = rp and n = n and ts = ts and lp = lp] by simp

lemma parse_exp5_emb:
  "ttype rp = ''CloseParen'' \<Longrightarrow> emb_res (parse_exp5 n ts pos) (parse_exp5 n (lp # ts @ [rp]) (Suc pos))"
  using exp_emb_step [where rp = rp and n = n and ts = ts and lp = lp] by simp

lemma parse_exp6_emb:
  "ttype rp = ''CloseParen'' \<Longrightarrow> emb_res (parse_exp6 n ts pos) (parse_exp6 n (lp # ts @ [rp]) (Suc pos))"
  using exp_emb_step [where rp = rp and n = n and ts = ts and lp = lp] by simp

lemma parse_exp6_loop_emb:
  "ttype rp = ''CloseParen'' \<Longrightarrow> emb_res (parse_exp6_loop n exp ts pos) (parse_exp6_loop n exp (lp # ts @ [rp]) (Suc pos))"
  using exp_emb_step [where rp = rp and n = n and ts = ts and lp = lp] by simp

lemma parse_args_emb:
  "ttype rp = ''CloseParen'' \<Longrightarrow> emb_res (parse_args n ts pos args) (parse_args n (lp # ts @ [rp]) (Suc pos) args)"
  using exp_emb_step [where rp = rp and n = n and ts = ts and lp = lp] by simp

lemma parse_exp7_emb:
  "ttype rp = ''CloseParen'' \<Longrightarrow> emb_res (parse_exp7 n ts pos) (parse_exp7 n (lp # ts @ [rp]) (Suc pos))"
  using exp_emb_step [where rp = rp and n = n and ts = ts and lp = lp] by simp

lemma parse_exp6_loop_end:
  "length ts \<le> p \<Longrightarrow> parse_exp6_loop (Suc k) e ts p = Inr (e, p)"
  by (simp add: parse_exp6_loop_Suc check_at_end)

lemma parse_exp4_loop_end:
  "length ts \<le> p \<Longrightarrow> parse_exp4_loop (Suc k) e ts p = Inr (e, p)"
  by (simp add: parse_exp4_loop_Suc check_any_at_end)

lemma parse_exp3_loop_end:
  "length ts \<le> p \<Longrightarrow> parse_exp3_loop (Suc k) e ts p = Inr (e, p)"
  by (simp add: parse_exp3_loop_Suc check_any_at_end)

lemma parse_exp2_loop_end:
  "length ts \<le> p \<Longrightarrow> parse_exp2_loop (Suc k) e ts p = Inr (e, p)"
  by (simp add: parse_exp2_loop_Suc check_any_at_end)

lemma parse_exp_loop_end:
  "length ts \<le> p \<Longrightarrow> parse_exp_loop (Suc k) e ts p = Inr (e, p)"
  by (simp add: parse_exp_loop_Suc check_at_end)

lemma primary_to_end:
  assumes p7: "parse_exp7 (Suc n) ts pos = Inr (e, p)"
    and e: "length ts \<le> p"
    and u: "\<not> check_any ts pos [''Dash'', ''Not'']"
  shows "parse_exp (n + 8) ts pos = Inr (e, p)"
proof -
  have p6: "parse_exp6 (Suc (Suc n)) ts pos = Inr (e, p)"
    by (simp add: parse_exp6_Suc p7 parse_exp6_loop_end [OF e])
  have p5: "parse_exp5 (Suc (Suc (Suc n))) ts pos = Inr (e, p)"
    by (simp add: parse_exp5_Suc u p6)
  have p4: "parse_exp4 (Suc (Suc (Suc (Suc n)))) ts pos = Inr (e, p)"
    by (simp add: parse_exp4_Suc p5 parse_exp4_loop_end [OF e])
  have p3: "parse_exp3 (Suc (Suc (Suc (Suc (Suc n))))) ts pos = Inr (e, p)"
    by (simp add: parse_exp3_Suc p4 parse_exp3_loop_end [OF e])
  have p2: "parse_exp2 (Suc (Suc (Suc (Suc (Suc (Suc n)))))) ts pos = Inr (e, p)"
    by (simp add: parse_exp2_Suc p3 parse_exp2_loop_end [OF e])
  have p1: "parse_exp1 (Suc (Suc (Suc (Suc (Suc (Suc (Suc n))))))) ts pos = Inr (e, p)"
    by (simp add: parse_exp1_Suc p2 check_any_at_end [OF e])
  have eight: "n + 8 = Suc (Suc (Suc (Suc (Suc (Suc (Suc (Suc n)))))))" by simp
  show ?thesis
    unfolding eight by (simp add: parse_exp_Suc p1 parse_exp_loop_end [OF e])
qed

lemma parse_exp7_paren:
  assumes "check ts pos ''OpenParen''"
  shows "parse_exp7 (Suc n) ts pos
         = bind_res (parse_exp n ts (Suc pos)) (\<lambda>(exp, p2).
           bind_res (consume ts p2 ''CloseParen'' (unexpected_token ts p2)) (\<lambda>(tok, p3).
           Inr (exp, p3)))"
proof -
  have no: "\<not> check ts pos ''Id''" "\<not> check ts pos ''Num''" "\<not> check ts pos ''Nil''"
    "\<not> check ts pos ''New''" "\<not> check ts pos ''OpenBracket''"
    using assms by (auto dest: check_other [where ty' = "''Id''"]
        check_other [where ty' = "''Num''"] check_other [where ty' = "''Nil''"]
        check_other [where ty' = "''New''"] check_other [where ty' = "''OpenBracket''"])
  show ?thesis
    using no assms check_advance [OF assms] by (simp add: parse_exp7_Suc)
qed

text \<open>
  Claim C10.  Parentheses leave no node in the tree.  Where \<^verbatim>\<open>parse_exp7\<close> stands at an
  opening parenthesis, \<^verbatim>\<open>parse_exp\<close> returns \<open>e\<close> for the tokens after it and a closing
  parenthesis follows, \<^verbatim>\<open>parse_exp7\<close> returns \<open>e\<close> itself.  And for every run of tokens
  \<open>toks\<close> that \<^verbatim>\<open>parse_exp\<close> parses as a whole to \<open>e\<close>, the run \<^verbatim>\<open>( toks )\<close> is parsed to the
  same \<open>e\<close>, by \<^verbatim>\<open>parse_exp7\<close> and by \<^verbatim>\<open>parse_exp\<close>.
\<close>

theorem paren_returns_inner:
  "(check ts pos ''OpenParen'' \<and> parse_exp n ts (Suc pos) = Inr (e, p2)
      \<and> check ts p2 ''CloseParen''
    \<longrightarrow> parse_exp7 (Suc n) ts pos = Inr (e, Suc p2))
   \<and> (ttype lp = ''OpenParen'' \<and> ttype rp = ''CloseParen''
      \<and> parse_exp n toks 0 = Inr (e, length toks)
    \<longrightarrow> parse_exp7 (Suc n) (lp # toks @ [rp]) 0 = Inr (e, length toks + 2)
      \<and> parse_exp (n + 8) (lp # toks @ [rp]) 0 = Inr (e, length toks + 2))"
proof -
  have in_context: "parse_exp7 (Suc n) ts pos = Inr (e, Suc p2)"
    if o: "check ts pos ''OpenParen''" and i: "parse_exp n ts (Suc pos) = Inr (e, p2)"
      and c: "check ts p2 ''CloseParen''"
    by (simp add: parse_exp7_paren [OF o] i check_consume [OF c])
  have alone: "parse_exp7 (Suc n) (lp # toks @ [rp]) 0 = Inr (e, length toks + 2)
      \<and> parse_exp (n + 8) (lp # toks @ [rp]) 0 = Inr (e, length toks + 2)"
    if l: "ttype lp = ''OpenParen''" and r: "ttype rp = ''CloseParen''"
      and i: "parse_exp n toks 0 = Inr (e, length toks)"
  proof -
    let ?ts = "lp # toks @ [rp]"
    from parse_exp_emb [OF r, of n toks 0 lp] i
    have inner: "parse_exp n ?ts (Suc 0) = Inr (e, Suc (length toks))"
      by (simp add: emb_res_def)
    have o: "check ?ts 0 ''OpenParen''"
      using l by (simp add: check_def is_at_end_def)
    have c: "check ?ts (Suc (length toks)) ''CloseParen''"
      using r by (simp add: check_def is_at_end_def nth_append)
    have p7: "parse_exp7 (Suc n) ?ts 0 = Inr (e, length toks + 2)"
      by (simp add: parse_exp7_paren [OF o] inner check_consume [OF c])
    have u: "\<not> check_any ?ts 0 [''Dash'', ''Not'']"
      using l by (simp add: check_any_def is_at_end_def)
    have "length ?ts \<le> length toks + 2" by simp
    from primary_to_end [OF p7 this u] p7 show ?thesis by simp
  qed
  from in_context alone show ?thesis by blast
qed

theorem paren_returns_inner_witness:
  "check (tokenize_input ''OpenParen Id(a) Plus Num(1) CloseParen'') 0 ''OpenParen''
   \<and> parse_exp 20 (tokenize_input ''OpenParen Id(a) Plus Num(1) CloseParen'') (Suc 0)
       = Inr (BinOp Add (Val (IdPlace ''a'')) (Num 1), 4)
   \<and> check (tokenize_input ''OpenParen Id(a) Plus Num(1) CloseParen'') 4 ''CloseParen''
   \<and> parse_exp7 (Suc 20) (tokenize_input ''OpenParen Id(a) Plus Num(1) CloseParen'') 0
       = Inr (BinOp Add (Val (IdPlace ''a'')) (Num 1), Suc 4)
   \<and> ttype (make_token ''OpenParen'' 0) = ''OpenParen''
   \<and> ttype (make_token ''CloseParen'' 4) = ''CloseParen''
   \<and> parse_exp 20 (tokenize_input ''Id(a) Plus Num(1)'') 0
       = Inr (BinOp Add (Val (IdPlace ''a'')) (Num 1),
              length (tokenize_input ''Id(a) Plus Num(1)''))
   \<and> parse_exp 28 (make_token ''OpenParen'' 0 # tokenize_input ''Id(a) Plus Num(1)''
                    @ [make_token ''CloseParen'' 4]) 0
       = Inr (BinOp Add (Val (IdPlace ''a'')) (Num 1),
              length (tokenize_input ''Id(a) Plus Num(1)'') + 2)"
proof -
  let ?ts = "tokenize_input ''OpenParen Id(a) Plus Num(1) CloseParen''"
  let ?toks = "tokenize_input ''Id(a) Plus Num(1)''"
  let ?lp = "make_token ''OpenParen'' 0"
  let ?rp = "make_token ''CloseParen'' 4"
  let ?e = "BinOp Add (Val (IdPlace ''a'')) (Num 1)"
  have o: "check ?ts 0 ''OpenParen''" by code_simp
  have e: "parse_exp 20 ?ts (Suc 0) = Inr (?e, 4)"
    by code_simp
  have c: "check ?ts 4 ''CloseParen''" by code_simp
  have l: "ttype ?lp = ''OpenParen''" by code_simp
  have r: "ttype ?rp = ''CloseParen''" by code_simp
  have i: "parse_exp 20 ?toks 0 = Inr (?e, length ?toks)" by code_simp
  from paren_returns_inner [of ?ts 0 20 ?e 4 ?lp ?rp ?toks] o e c
  have a: "parse_exp7 (Suc 20) ?ts 0 = Inr (?e, Suc 4)"
    by blast
  from paren_returns_inner [of ?ts 0 20 ?e 4 ?lp ?rp ?toks] l r i
  have "parse_exp (20 + 8) (?lp # ?toks @ [?rp]) 0 = Inr (?e, length ?toks + 2)"
    by blast
  then have b: "parse_exp 28 (?lp # ?toks @ [?rp]) 0 = Inr (?e, length ?toks + 2)"
    by simp
  from o e c a l r i b show ?thesis by (intro conjI)
qed

end
